theory Spec2Isabelle
  imports Main
begin

section \<open>Data model\<close>

text \<open>
  The User schema (models/User.js): \<open>fcmTokens\<close> is an array of sub-documents
  \<open>{token, platform, createdAt}\<close> in which no field is required, \<open>fcmToken\<close> is the
  optional legacy single-token string. An absent field is \<open>None\<close>.
\<close>

record fcm_entry =
  token :: "string option"
  platform :: "string option"
  createdAt :: nat

record user =
  user_id :: string
  name :: string
  email :: string
  password :: string
  role :: string
  fcmTokens :: "fcm_entry list"
  fcmToken :: "string option"

text \<open>The Task documents of routes/tasks.js (\<open>new Task({...})\<close>).\<close>

record task =
  task_id :: string
  title :: string
  description :: string
  assignedTo :: "string list"
  createdBy :: "string option"

text \<open>The notification payload \<open>{title, body, data}\<close> handed to the notification service.\<close>

record payload =
  p_title :: string
  p_body :: string
  p_data :: "(string \<times> string) list"

text \<open>
  Every call that leaves the process is recorded, most recent first: the storage calls
  on the User and Task collections and the calls of \<open>sendToToken\<close>.
\<close>

datatype event =
    Find "string list"
  | FindById string
  | FindOne string
  | SendToToken string payload
  | UpdateManyPull string
  | UpdateManyUnset string
  | UpdateOnePush string string
  | FindByIdAndUpdate string string
  | SaveUser string
  | SaveTask string
  | Populate string

record world =
  users :: "user list"
  tasks :: "task list"
  trace :: "event list"

text \<open>
  What \<open>sendToToken\<close> can meet after its guard: \<open>getAccessToken\<close> throws, \<open>fetch\<close>
  throws, or the gateway answers with an HTTP status and a body.
\<close>

datatype fetch_outcome =
    CredentialError
  | NetworkError
  | Response nat string

text \<open>
  The surroundings of one run. Both oracles are indexed by the number of external calls
  made so far, so the same token may be answered differently on a later call and any
  storage call may throw. \<open>fresh_id\<close> is the ObjectId given to a new document,
  \<open>clock\<close> is \<open>new Date()\<close>, \<open>bcrypt_hash\<close> stands for \<open>bcrypt.hash\<close> with its
  salt, \<open>jwt_secret\<close> is \<open>process.env.JWT_SECRET\<close>.
\<close>

record env =
  storage_fails :: "nat \<Rightarrow> bool"
  gateway :: "nat \<Rightarrow> string \<Rightarrow> fetch_outcome"
  fresh_id :: "nat \<Rightarrow> string"
  clock :: "nat \<Rightarrow> nat"
  bcrypt_hash :: "string \<Rightarrow> string"
  jwt_secret :: "string option"

definition now :: "world \<Rightarrow> nat" where
  "now w = length (trace w)"

definition log :: "event \<Rightarrow> world \<Rightarrow> world" where
  "log e w = w\<lparr>trace := e # trace w\<rparr>"

section \<open>service/notificationService.js\<close>

text \<open>The errors thrown inside \<open>sendToToken\<close> and \<open>sendNotificationToUserFromDb\<close>.\<close>

datatype send_error =
    MissingRegistrationToken
  | AccessTokenFailed
  | FetchThrew
  | FcmSendFailed nat string

datatype notify_error =
    UserIdRequired
  | StorageError
  | UserNotFound string
  | NoFcmTokensFound string

text \<open>
  \<open>sendToToken(token, payload)\<close>: throws on a falsy token, on a failure to obtain the
  access token, on a failing \<open>fetch\<close>, and on every response that is not \<open>res.ok\<close>
  (status outside 200..299); returns the response body otherwise.
\<close>

definition res_ok :: "nat \<Rightarrow> bool" where
  "res_ok status = (200 \<le> status \<and> status \<le> 299)"

definition sendToToken :: "env \<Rightarrow> string \<Rightarrow> payload \<Rightarrow> world \<Rightarrow> (send_error + string) \<times> world" where
  "sendToToken en tk p w =
     (let w' = log (SendToToken tk p) w in
      if tk = [] then (Inl MissingRegistrationToken, w')
      else (case gateway en (now w) tk of
              CredentialError \<Rightarrow> (Inl AccessTokenFailed, w')
            | NetworkError \<Rightarrow> (Inl FetchThrew, w')
            | Response status body \<Rightarrow>
                if res_ok status then (Inr body, w')
                else (Inl (FcmSendFailed status body), w')))"

text \<open>One element of the \<open>results\<close> array: \<open>{token, ok: true, resp}\<close> or
  \<open>{token, ok: false, error, response}\<close>.\<close>

datatype send_result =
    SendOk string string
  | SendFailed string send_error

fun r_token :: "send_result \<Rightarrow> string" where
  "r_token (SendOk tk body) = tk"
| "r_token (SendFailed tk e) = tk"

fun r_ok :: "send_result \<Rightarrow> bool" where
  "r_ok (SendOk tk body) = True"
| "r_ok (SendFailed tk e) = False"

text \<open>JavaScript truthiness of an optional string: present and not empty.\<close>

fun truthy :: "string option \<Rightarrow> bool" where
  "truthy None = False"
| "truthy (Some s) = (s \<noteq> [])"

text \<open>
  The token gathering of \<open>sendNotificationToUserFromDb\<close>: the truthy \<open>token\<close> of every
  \<open>fcmTokens\<close> entry in order, then the legacy \<open>fcmToken\<close> when it is a non-empty string.
  (The schema makes every entry a sub-document, so the \<open>typeof e === 'string'\<close> branch
  has no input.)
\<close>

definition gather_tokens :: "user \<Rightarrow> string list" where
  "gather_tokens u =
     map (\<lambda>e. the (token e)) (filter (\<lambda>e. truthy (token e)) (fcmTokens u))
     @ (if truthy (fcmToken u) then [the (fcmToken u)] else [])"

text \<open>\<open>Array.from(new Set(tokens))\<close>: the first occurrence of every value, in order.\<close>

definition uniq :: "string list \<Rightarrow> string list" where
  "uniq xs = rev (remdups (rev xs))"

fun send_each :: "env \<Rightarrow> payload \<Rightarrow> string list \<Rightarrow> world \<Rightarrow> send_result list \<times> world" where
  "send_each en p [] w = ([], w)"
| "send_each en p (tk # tks) w =
     (case sendToToken en tk p w of
        (Inr body, w1) \<Rightarrow>
          (case send_each en p tks w1 of (rs, w2) \<Rightarrow> (SendOk tk body # rs, w2))
      | (Inl e, w1) \<Rightarrow>
          (case send_each en p tks w1 of (rs, w2) \<Rightarrow> (SendFailed tk e # rs, w2)))"

text \<open>
  \<open>sendNotificationToUserFromDb(UserModel, userId, payload)\<close>. The dispatch always
  passes the User model, so the \<open>UserModel required\<close> guard has no input here; the
  other throws are branches: an empty \<open>userId\<close>, a failing \<open>findById\<close>, no such user,
  no token. A failing send is caught per token and becomes a result with \<open>ok: false\<close>.
\<close>

definition findById :: "string \<Rightarrow> user list \<Rightarrow> user option" where
  "findById i us = find (\<lambda>u. user_id u = i) us"

definition sendNotificationToUserFromDb ::
  "env \<Rightarrow> string \<Rightarrow> payload \<Rightarrow> world \<Rightarrow> (notify_error + send_result list) \<times> world" where
  "sendNotificationToUserFromDb en userId p w =
     (if userId = [] then (Inl UserIdRequired, w)
      else
        let w1 = log (FindById userId) w in
        if storage_fails en (now w) then (Inl StorageError, w1)
        else (case findById userId (users w1) of
                None \<Rightarrow> (Inl (UserNotFound userId), w1)
              | Some u \<Rightarrow>
                  let tokens = gather_tokens u in
                  if tokens = [] then (Inl (NoFcmTokensFound userId), w1)
                  else (case send_each en p (uniq tokens) w1 of
                          (results, w2) \<Rightarrow> (Inr results, w2))))"

section \<open>routes/tasks.js: sendTaskAssignedNotifications\<close>

text \<open>The argument \<open>assignedUserIds\<close> as JavaScript passes it: an array, or anything else.\<close>

datatype js_ids = NotArray | Array "string list"

text \<open>
  One element of \<open>sendSummary\<close>: \<open>{userId, ok, results, failed}\<close> when the service
  returned, \<open>{userId, ok: false, error}\<close> when it threw.
\<close>

datatype summary_entry =
    Sent string bool "send_result list" "send_result list"
  | Threw string notify_error

fun entry_user :: "summary_entry \<Rightarrow> string" where
  "entry_user (Sent i ok rs fs) = i"
| "entry_user (Threw i e) = i"

fun entry_results :: "summary_entry \<Rightarrow> send_result list" where
  "entry_results (Sent i ok rs fs) = rs"
| "entry_results (Threw i e) = []"

fun entry_failed :: "summary_entry \<Rightarrow> send_result list" where
  "entry_failed (Sent i ok rs fs) = fs"
| "entry_failed (Threw i e) = []"

text \<open>
  The value returned: \<open>{sent: 0, failed: 0, details: []}\<close> on the early return,
  \<open>{summary, failedTokens}\<close> otherwise.
\<close>

datatype report =
    Skipped nat nat "summary_entry list"
  | Report "summary_entry list" "(string \<times> send_error) list"

datatype dispatch_error = LookupFailed

definition task_payload :: "task \<Rightarrow> payload" where
  "task_payload t =
     \<lparr> p_title = ''New Task: '' @ title t,
       p_body = (if description t = [] then ''You have been assigned a new task''
                 else description t),
       p_data = [(''taskId'', task_id t), (''taskTitle'', title t)] \<rparr>"

text \<open>The body of the \<open>for (const u of users)\<close> loop, with its try/catch.\<close>

definition notify_user :: "env \<Rightarrow> task \<Rightarrow> user \<Rightarrow> world \<Rightarrow> summary_entry \<times> world" where
  "notify_user en t u w =
     (case sendNotificationToUserFromDb en (user_id u) (task_payload t) w of
        (Inr results, w1) \<Rightarrow>
          (let failed = filter (\<lambda>r. \<not> r_ok r) results
           in (Sent (user_id u) (failed = []) results failed, w1))
      | (Inl e, w1) \<Rightarrow> (Threw (user_id u) e, w1))"

fun notify_users :: "env \<Rightarrow> task \<Rightarrow> user list \<Rightarrow> world \<Rightarrow> summary_entry list \<times> world" where
  "notify_users en t [] w = ([], w)"
| "notify_users en t (u # us) w =
     (case notify_user en t u w of
        (entry, w1) \<Rightarrow>
          (case notify_users en t us w1 of (entries, w2) \<Rightarrow> (entry # entries, w2)))"

text \<open>
  Step 3, first half: every failed result with a truthy token becomes
  \<open>{token, reason: f.error}\<close>. (\<open>f.error\<close> is the message of a thrown Error and never
  empty, so the \<open>'unknown'\<close> default has no input.)
\<close>

fun failed_reason :: "send_result \<Rightarrow> (string \<times> send_error) list" where
  "failed_reason (SendFailed tk e) = (if tk \<noteq> [] then [(tk, e)] else [])"
| "failed_reason (SendOk tk body) = []"

definition failedTokensToCleanup :: "summary_entry list \<Rightarrow> (string \<times> send_error) list" where
  "failedTokensToCleanup summary =
     concat (map (\<lambda>entry. concat (map failed_reason (entry_failed entry))) summary)"

text \<open>The two MongoDB updates of the cleanup loop, as functions on the collection.\<close>

definition pull_token :: "string \<Rightarrow> user list \<Rightarrow> user list" where
  "pull_token tk us =
     map (\<lambda>u. u\<lparr>fcmTokens := filter (\<lambda>e. token e \<noteq> Some tk) (fcmTokens u)\<rparr>) us"

definition unset_legacy :: "string \<Rightarrow> user list \<Rightarrow> user list" where
  "unset_legacy tk us =
     map (\<lambda>u. if fcmToken u = Some tk then u\<lparr>fcmToken := None\<rparr> else u) us"

text \<open>
  The body of the cleanup loop (lines 142-148): \<open>updateMany\<close> with \<open>$pull\<close>, then
  \<open>updateMany\<close> with \<open>$unset\<close>; a throw of either is caught and skips the rest of the body.
\<close>

definition removeToken :: "env \<Rightarrow> string \<Rightarrow> world \<Rightarrow> world" where
  "removeToken en tk w =
     (let w1 = log (UpdateManyPull tk) w in
      if storage_fails en (now w) then w1
      else
        let w2 = log (UpdateManyUnset tk) (w1\<lparr>users := pull_token tk (users w1)\<rparr>) in
        if storage_fails en (now w1) then w2
        else w2\<lparr>users := unset_legacy tk (users w2)\<rparr>)"

fun cleanup :: "env \<Rightarrow> (string \<times> send_error) list \<Rightarrow> world \<Rightarrow> world" where
  "cleanup en [] w = w"
| "cleanup en (f # fs) w = cleanup en fs (removeToken en (fst f) w)"

definition find_in :: "string list \<Rightarrow> user list \<Rightarrow> user list" where
  "find_in ids us = filter (\<lambda>u. user_id u \<in> set ids) us"

definition dispatch_found :: "env \<Rightarrow> task \<Rightarrow> user list \<Rightarrow> world \<Rightarrow> report \<times> world" where
  "dispatch_found en t found w =
     (case notify_users en t found w of
        (sendSummary, w1) \<Rightarrow>
          (let failed = failedTokensToCleanup sendSummary
           in (Report sendSummary failed, cleanup en failed w1)))"

definition sendTaskAssignedNotifications ::
  "env \<Rightarrow> task \<Rightarrow> js_ids \<Rightarrow> world \<Rightarrow> (dispatch_error + report) \<times> world" where
  "sendTaskAssignedNotifications en t assignedUserIds w =
     (case assignedUserIds of
        NotArray \<Rightarrow> (Inr (Skipped 0 0 []), w)
      | Array ids \<Rightarrow>
          if ids = [] then (Inr (Skipped 0 0 []), w)
          else
            let w0 = log (Find ids) w in
            if storage_fails en (now w) then (Inl LookupFailed, w0)
            else (case dispatch_found en t (find_in ids (users w0)) w0 of
                    (rep, w1) \<Rightarrow> (Inr rep, w1)))"

text \<open>Observations on a trace.\<close>

fun is_send :: "event \<Rightarrow> bool" where
  "is_send (SendToToken tk p) = True"
| "is_send e = False"

fun is_send_to :: "string \<Rightarrow> event \<Rightarrow> bool" where
  "is_send_to tk (SendToToken tk' p) = (tk' = tk)"
| "is_send_to tk e = False"

fun is_lookup :: "event \<Rightarrow> bool" where
  "is_lookup (Find ids) = True"
| "is_lookup (FindById i) = True"
| "is_lookup e = False"

fun is_update :: "event \<Rightarrow> bool" where
  "is_update (UpdateManyPull tk) = True"
| "is_update (UpdateManyUnset tk) = True"
| "is_update e = False"

text \<open>
  A gateway outcome on which \<open>sendToToken\<close> throws: anything but a response with
  \<open>res.ok\<close>. \<open>failing_sends en k es\<close> reads a stretch of calls in the order they were
  made, the first at time \<open>k\<close>, and lists the tokens of the sends that met such an outcome.
\<close>

fun not_accepted :: "fetch_outcome \<Rightarrow> bool" where
  "not_accepted (Response status body) = (\<not> res_ok status)"
| "not_accepted CredentialError = True"
| "not_accepted NetworkError = True"

fun failing_sends :: "env \<Rightarrow> nat \<Rightarrow> event list \<Rightarrow> string list" where
  "failing_sends en k [] = []"
| "failing_sends en k (SendToToken tk p # es) =
     (if not_accepted (gateway en k tk) then [tk] else []) @ failing_sends en (Suc k) es"
| "failing_sends en k (e # es) = failing_sends en (Suc k) es"

definition sends :: "world \<Rightarrow> nat" where
  "sends w = length (filter is_send (trace w))"

definition sends_to :: "string \<Rightarrow> world \<Rightarrow> nat" where
  "sends_to tk w = length (filter (is_send_to tk) (trace w))"

definition lookups :: "world \<Rightarrow> nat" where
  "lookups w = length (filter is_lookup (trace w))"

text \<open>A token value is held by a user through an \<open>fcmTokens\<close> entry or the legacy field.\<close>

definition holds :: "user \<Rightarrow> string \<Rightarrow> bool" where
  "holds u tk = (Some tk \<in> set (map token (fcmTokens u)) \<or> fcmToken u = Some tk)"

section \<open>routes/tasks.js: POST /api/tasks\<close>

text \<open>
  The request body: \<open>title\<close> and \<open>description\<close> absent or a string, \<open>assignedTo\<close>
  absent, a single value or an array; \<open>rq_user\<close> is \<open>req.user && req.user.id\<close>.
\<close>

datatype js_assigned = Absent | One string | Many "string list"

record task_request =
  rq_title :: "string option"
  rq_description :: "string option"
  rq_assignedTo :: js_assigned
  rq_user :: "string option"

datatype task_response =
    Created task
  | TitleRequired
  | TaskServerError

text \<open>\<open>String.prototype.trim\<close> on 8-bit characters: tab, LF, VT, FF, CR, space, NBSP.\<close>

definition is_space :: "char \<Rightarrow> bool" where
  "is_space c = (of_char c \<in> {9, 10, 11, 12, 13, 32, 160 :: nat})"

definition trim :: "string \<Rightarrow> string" where
  "trim s = rev (dropWhile is_space (rev (dropWhile is_space s)))"

definition title_missing :: "string option \<Rightarrow> bool" where
  "title_missing t = (\<not> truthy t \<or> trim (the t) = [])"

fun assignedArr :: "js_assigned \<Rightarrow> string list" where
  "assignedArr (Many ids) = ids"
| "assignedArr (One i) = (if i \<noteq> [] then [i] else [])"
| "assignedArr Absent = []"

text \<open>
  The handler, reached behind the \<open>auth\<close> middleware, which supplies \<open>req.user\<close>:
  400 on a missing title; \<open>save\<close> and the two \<open>populate\<close> calls, each of
  which may throw into the outer catch (500); then the dispatch inside its own try/catch,
  whose result is only logged; then 201.
\<close>

definition newTask :: "env \<Rightarrow> task_request \<Rightarrow> world \<Rightarrow> task" where
  "newTask en rq w =
     \<lparr> task_id = fresh_id en (now w),
       title = the (rq_title rq),
       description = (if truthy (rq_description rq) then the (rq_description rq) else []),
       assignedTo = assignedArr (rq_assignedTo rq),
       createdBy = rq_user rq \<rparr>"

definition create_task :: "env \<Rightarrow> task_request \<Rightarrow> world \<Rightarrow> task_response \<times> world" where
  "create_task en rq w =
     (if title_missing (rq_title rq) then (TitleRequired, w)
      else
        let w1 = log (SaveTask (task_id (newTask en rq w))) w
        in if storage_fails en (now w) then (TaskServerError, w1)
        else
          let w2 = log (Populate ''assignedTo'') (w1\<lparr>tasks := tasks w1 @ [newTask en rq w]\<rparr>)
          in if storage_fails en (now w1) then (TaskServerError, w2)
          else
            let w3 = log (Populate ''createdBy'') w2
            in if storage_fails en (now w2) then (TaskServerError, w3)
            else (case sendTaskAssignedNotifications en (newTask en rq w)
                         (Array (assignedArr (rq_assignedTo rq))) w3 of
                    (notifyResult, w4) \<Rightarrow> (Created (newTask en rq w), w4)))"

section \<open>routes/tasks.js: POST /api/tasks/device-token\<close>

record token_request =
  dt_user :: string
  dt_fcmToken :: "string option"
  dt_platform :: "string option"

datatype token_response =
    TokenSaved
  | FcmTokenRequired
  | TokenServerError

text \<open>\<open>updateOne\<close> and \<open>findByIdAndUpdate\<close> change the first document that matches.\<close>

fun update_first :: "(user \<Rightarrow> bool) \<Rightarrow> (user \<Rightarrow> user) \<Rightarrow> user list \<Rightarrow> user list" where
  "update_first P f [] = []"
| "update_first P f (u # us) = (if P u then f u # us else u # update_first P f us)"

text \<open>
  \<open>updateOne({_id, 'fcmTokens.token': {$ne: fcmToken}}, {$push: {fcmTokens: {...}}})\<close>:
  the filter matches the user only when no entry carries the token value.
\<close>

definition push_if_absent :: "string \<Rightarrow> string \<Rightarrow> string \<Rightarrow> nat \<Rightarrow> user list \<Rightarrow> user list" where
  "push_if_absent i tk plat d us =
     update_first
       (\<lambda>u. user_id u = i \<and> Some tk \<notin> set (map token (fcmTokens u)))
       (\<lambda>u. u\<lparr>fcmTokens := fcmTokens u @
                 [\<lparr>token = Some tk, platform = Some plat, createdAt = d\<rparr>]\<rparr>)
       us"

definition set_legacy :: "string \<Rightarrow> string \<Rightarrow> user list \<Rightarrow> user list" where
  "set_legacy i tk us = update_first (\<lambda>u. user_id u = i) (\<lambda>u. u\<lparr>fcmToken := Some tk\<rparr>) us"

definition device_token :: "env \<Rightarrow> token_request \<Rightarrow> world \<Rightarrow> token_response \<times> world" where
  "device_token en rq w =
     (if \<not> truthy (dt_fcmToken rq) then (FcmTokenRequired, w)
      else
        let tk = the (dt_fcmToken rq);
            plat = (if truthy (dt_platform rq) then the (dt_platform rq) else []);
            w1 = log (UpdateOnePush (dt_user rq) tk) w
        in if storage_fails en (now w) then (TokenServerError, w1)
        else
          let w2 = log (FindByIdAndUpdate (dt_user rq) tk)
                     (w1\<lparr>users := push_if_absent (dt_user rq) tk plat (clock en (now w)) (users w1)\<rparr>)
          in if storage_fails en (now w1) then (TokenServerError, w2)
          else (TokenSaved, w2\<lparr>users := set_legacy (dt_user rq) tk (users w2)\<rparr>))"

section \<open>routes/auth.js: POST /api/auth/register\<close>

text \<open>
  The request body. The handler takes no credential: the route is mounted without the
  \<open>auth\<close> middleware, so the request has no caller identity at all. The body is taken to
  carry an \<open>email\<close> string; the other fields may be absent.
\<close>

record register_request =
  rg_name :: "string option"
  rg_email :: string
  rg_password :: "string option"
  rg_role :: "string option"

text \<open>The payload signed by \<open>jwt.sign\<close>, and the \<open>user\<close> object of the response.\<close>

record credential =
  jwt_id :: string
  jwt_role :: string

datatype register_response =
    Registered credential string string string string
  | UserAlreadyExists
  | RegisterServerError

text \<open>
  The validation \<open>save\<close> runs against the schema: \<open>name\<close>, \<open>email\<close> and \<open>password\<close>
  are required (for a string: present and not empty), \<open>role\<close> is one of the enum values.
\<close>

definition role_enum :: "string list" where
  "role_enum = [''admin'', ''user'']"

definition validate_user :: "string option \<Rightarrow> string \<Rightarrow> string \<Rightarrow> string \<Rightarrow> bool" where
  "validate_user nm em pw rl =
     (truthy nm \<and> em \<noteq> [] \<and> pw \<noteq> [] \<and> rl \<in> set role_enum)"

text \<open>\<open>role || 'user'\<close>.\<close>

definition requested_role :: "string option \<Rightarrow> string" where
  "requested_role r = (if truthy r then the r else ''user'')"

definition register :: "env \<Rightarrow> register_request \<Rightarrow> world \<Rightarrow> register_response \<times> world" where
  "register en rq w =
     (let w1 = log (FindOne (rg_email rq)) w in
      if storage_fails en (now w) then (RegisterServerError, w1)
      else if find (\<lambda>u. email u = rg_email rq) (users w1) \<noteq> None
           then (UserAlreadyExists, w1)
      else (case rg_password rq of
              None \<Rightarrow> (RegisterServerError, w1)
            | Some pw \<Rightarrow>
                let hash = bcrypt_hash en pw;
                    rl = requested_role (rg_role rq);
                    i = fresh_id en (now w1)
                in if \<not> validate_user (rg_name rq) (rg_email rq) hash rl
                   then (RegisterServerError, w1)
                   else
                     let w2 = log (SaveUser i) w1 in
                     if storage_fails en (now w1) then (RegisterServerError, w2)
                     else
                       let u = \<lparr> user_id = i, name = the (rg_name rq), email = rg_email rq,
                                 password = hash, role = rl, fcmTokens = [], fcmToken = None \<rparr>;
                           w3 = w2\<lparr>users := users w2 @ [u]\<rparr>
                       in if \<not> truthy (jwt_secret en) then (RegisterServerError, w3)
                          else (Registered \<lparr>jwt_id = i, jwt_role = role u\<rparr>
                                  (user_id u) (name u) (email u) (role u), w3)))"

section \<open>The spec's failure classes, and a small example\<close>

text \<open>
  The source draws no line between kinds of send failure. To state what the specification
  says about them, \<open>spec_class\<close> follows the specification's words (sections 4.2 and 7):
  a token the gateway reports as malformed or unregistered (HTTP 400, 404) is
  \<open>InvalidToken\<close>, a credential problem is \<open>AuthError\<close>, and network failures, rate
  limits and 5xx answers are \<open>TransientError\<close>.
\<close>

datatype outcome_class = InvalidToken | TransientError | AuthError

fun spec_class :: "send_error \<Rightarrow> outcome_class" where
  "spec_class MissingRegistrationToken = InvalidToken"
| "spec_class AccessTokenFailed = AuthError"
| "spec_class FetchThrew = TransientError"
| "spec_class (FcmSendFailed status body) =
     (if status = 400 \<or> status = 404 then InvalidToken
      else if status = 401 \<or> status = 403 then AuthError
      else TransientError)"

text \<open>
  The scenario of the specification's section 8: U1 holds tokA, U2 holds tokA and tokB,
  U3 holds nothing. \<open>example_env down g\<close> has a storage layer whose \<open>n\<close>-th call
  throws when \<open>down n\<close>, and a gateway that answers a send to \<open>tk\<close> with \<open>g tk\<close>.
\<close>

definition example_user :: "string \<Rightarrow> string list \<Rightarrow> user" where
  "example_user i tks =
     \<lparr> user_id = i, name = i, email = i @ ''@example.com'', password = ''$2a$10$hash'',
       role = ''user'',
       fcmTokens = map (\<lambda>tk. \<lparr>token = Some tk, platform = Some ''android'', createdAt = 0\<rparr>) tks,
       fcmToken = None \<rparr>"

definition example_world :: world where
  "example_world =
     \<lparr> users = [example_user ''U1'' [''tokA''], example_user ''U2'' [''tokA'', ''tokB''],
                example_user ''U3'' []],
       tasks = [], trace = [] \<rparr>"

definition example_task :: task where
  "example_task =
     \<lparr> task_id = ''T1'', title = ''Ship it'', description = [],
       assignedTo = [''U1'', ''U2''], createdBy = Some ''U0'' \<rparr>"

definition storage_up :: "nat \<Rightarrow> bool" where
  "storage_up n = False"

definition storage_down :: "nat \<Rightarrow> bool" where
  "storage_down n = True"

definition storage_down_from :: "nat \<Rightarrow> nat \<Rightarrow> bool" where
  "storage_down_from k n = (k \<le> n)"

definition storage_down_at :: "nat \<Rightarrow> nat \<Rightarrow> bool" where
  "storage_down_at k n = (n = k)"

definition example_env :: "(nat \<Rightarrow> bool) \<Rightarrow> (string \<Rightarrow> fetch_outcome) \<Rightarrow> env" where
  "example_env down g =
     \<lparr> storage_fails = down, gateway = (\<lambda>n. g), fresh_id = (\<lambda>n. ''new1''),
       clock = (\<lambda>n. n), bcrypt_hash = (\<lambda>pw. ''$2a$10$'' @ pw), jwt_secret = Some ''secret'' \<rparr>"

definition unreachable :: "string \<Rightarrow> fetch_outcome" where
  "unreachable tk = NetworkError"

definition unavailable :: "string \<Rightarrow> fetch_outcome" where
  "unavailable tk = Response 503 ''UNAVAILABLE''"

definition accepted :: "string \<Rightarrow> fetch_outcome" where
  "accepted tk = Response 200 ''{}''"

text \<open>A device-token request of U3 and a registration request, for the examples.\<close>

definition example_token_request :: "string \<Rightarrow> token_request" where
  "example_token_request plat = \<lparr>dt_user = ''U3'', dt_fcmToken = Some ''tokC'', dt_platform = Some plat\<rparr>"

definition example_register_request :: "string \<Rightarrow> register_request" where
  "example_register_request r =
     \<lparr>rg_name = Some ''Eve'', rg_email = ''eve@example.com'', rg_password = Some ''pw'',
      rg_role = Some r\<rparr>"

section \<open>What each step does to the world\<close>

lemma users_log [simp]: "users (log e w) = users w"
  by (simp add: log_def)

lemma tasks_log [simp]: "tasks (log e w) = tasks w"
  by (simp add: log_def)

lemma trace_log [simp]: "trace (log e w) = e # trace w"
  by (simp add: log_def)

lemma now_log [simp]: "now (log e w) = Suc (now w)"
  by (simp add: now_def)

lemma sendToToken_world: "snd (sendToToken en tk p w) = log (SendToToken tk p) w"
  by (simp add: sendToToken_def Let_def split: fetch_outcome.splits)

lemma sendToToken_users: "sendToToken en tk p w = (r, w1) \<Longrightarrow> users w1 = users w"
  using sendToToken_world [of en tk p w] by simp

lemma send_each_users: "send_each en p tks w = (rs, w1) \<Longrightarrow> users w1 = users w"
proof (induction tks arbitrary: w rs w1)
  case Nil
  then show ?case by simp
next
  case (Cons tk tks)
  obtain r wa where s: "sendToToken en tk p w = (r, wa)" by (cases "sendToToken en tk p w")
  obtain rs' wb where e: "send_each en p tks wa = (rs', wb)" by (cases "send_each en p tks wa")
  have "w1 = wb" using Cons.prems s e by (cases r) auto
  moreover have "users wb = users wa" using Cons.IH [OF e] .
  moreover have "users wa = users w" using sendToToken_users [OF s] .
  ultimately show ?case by simp
qed

lemma send_each_tokens: "send_each en p tks w = (rs, w1) \<Longrightarrow> map r_token rs = tks"
proof (induction tks arbitrary: w rs w1)
  case Nil
  then show ?case by simp
next
  case (Cons tk tks)
  obtain r wa where s: "sendToToken en tk p w = (r, wa)" by (cases "sendToToken en tk p w")
  obtain rs' wb where e: "send_each en p tks wa = (rs', wb)" by (cases "send_each en p tks wa")
  have "map r_token rs' = tks" using Cons.IH [OF e] .
  then show ?case using Cons.prems s e by (cases r) auto
qed

lemma send_each_trace:
  "send_each en p tks w = (rs, w1) \<Longrightarrow> trace w1 = map (\<lambda>tk. SendToToken tk p) (rev tks) @ trace w"
proof (induction tks arbitrary: w rs w1)
  case Nil
  then show ?case by simp
next
  case (Cons tk tks)
  obtain r wa where s: "sendToToken en tk p w = (r, wa)" by (cases "sendToToken en tk p w")
  obtain rs' wb where e: "send_each en p tks wa = (rs', wb)" by (cases "send_each en p tks wa")
  have wa: "wa = log (SendToToken tk p) w" using sendToToken_world [of en tk p w] s by simp
  have "w1 = wb" using Cons.prems s e by (cases r) auto
  then show ?case using Cons.IH [OF e] wa by simp
qed


lemma distinct_uniq: "distinct (uniq xs)"
  by (simp add: uniq_def)

lemma set_uniq: "set (uniq xs) = set xs"
  by (simp add: uniq_def)

lemma gather_tokens_nonempty: "tk \<in> set (gather_tokens u) \<Longrightarrow> tk \<noteq> []"
  by (auto simp: gather_tokens_def split: if_splits) (metis option.sel truthy.elims(2))+

lemma service_shape:
  assumes "sendNotificationToUserFromDb en i p w = (r, w1)"
  shows "users w1 = users w \<and>
         (\<exists>tks. distinct tks \<and> [] \<notin> set tks \<and>
            (\<forall>tk \<in> set tks. \<exists>u. findById i (users w) = Some u \<and> tk \<in> set (gather_tokens u)) \<and>
            trace w1 = map (\<lambda>tk. SendToToken tk p) (rev tks)
                       @ (if i = [] then [] else [FindById i]) @ trace w \<and>
            (\<forall>rs. r = Inr rs \<longrightarrow> map r_token rs = tks))"
proof (cases "i = []")
  case True
  then show ?thesis using assms
    by (auto simp: sendNotificationToUserFromDb_def intro: exI [of _ "[]"])
next
  case i: False
  let ?w1 = "log (FindById i) w"
  show ?thesis
  proof (cases "storage_fails en (now w)")
    case True
    then show ?thesis using assms i
      by (auto simp: sendNotificationToUserFromDb_def Let_def intro: exI [of _ "[]"])
  next
    case ok: False
    show ?thesis
    proof (cases "findById i (users w)")
      case None
      then show ?thesis using assms i ok
        by (auto simp: sendNotificationToUserFromDb_def Let_def intro: exI [of _ "[]"])
    next
      case (Some u)
      show ?thesis
      proof (cases "gather_tokens u = []")
        case True
        then show ?thesis using assms i ok Some
          by (auto simp: sendNotificationToUserFromDb_def Let_def intro: exI [of _ "[]"])
      next
        case False
        obtain rs w2 where e: "send_each en p (uniq (gather_tokens u)) ?w1 = (rs, w2)"
          by (cases "send_each en p (uniq (gather_tokens u)) ?w1")
        have r: "r = Inr rs" "w1 = w2" using assms i ok Some False e
          by (auto simp: sendNotificationToUserFromDb_def Let_def)
        have "[] \<notin> set (uniq (gather_tokens u))"
          using gather_tokens_nonempty [of "[]" u] by (auto simp: set_uniq)
        then show ?thesis
          using r i send_each_users [OF e] send_each_trace [OF e] send_each_tokens [OF e]
            distinct_uniq [of "gather_tokens u"] Some
          by (intro conjI exI [of _ "uniq (gather_tokens u)"]) (auto simp: set_uniq)
      qed
    qed
  qed
qed


lemma distinct_count_le: "distinct xs \<Longrightarrow> length (filter (\<lambda>x. x = tk) xs) \<le> Suc 0"
  by (induction xs) (auto simp: filter_empty_conv)

lemma service_sends_to:
  assumes "sendNotificationToUserFromDb en i p w = (r, w1)"
  shows "sends_to tk w1 \<le> sends_to tk w +
           (if \<exists>u. findById i (users w) = Some u \<and> tk \<in> set (gather_tokens u) then 1 else 0)"
proof -
  obtain tks where d: "distinct tks"
    and g: "\<forall>tk \<in> set tks. \<exists>u. findById i (users w) = Some u \<and> tk \<in> set (gather_tokens u)"
    and tr: "trace w1 = map (\<lambda>tk. SendToToken tk p) (rev tks)
                       @ (if i = [] then [] else [FindById i]) @ trace w"
    using service_shape [OF assms] by blast
  have le: "length (filter (\<lambda>x. x = tk) (rev tks)) \<le> Suc 0"
    using d distinct_count_le [of "rev tks" tk] by simp
  have eq: "sends_to tk w1 = length (filter (\<lambda>x. x = tk) (rev tks)) + sends_to tk w"
    by (simp add: sends_to_def tr o_def)
  show ?thesis
  proof (cases "tk \<in> set tks")
    case True
    then have "\<exists>u. findById i (users w) = Some u \<and> tk \<in> set (gather_tokens u)"
      using g by blast
    then show ?thesis using le eq by simp
  next
    case False
    then have "filter (\<lambda>x. x = tk) (rev tks) = []"
      by (auto simp: filter_empty_conv)
    then show ?thesis using eq by simp
  qed
qed

lemma service_sends:
  assumes "sendNotificationToUserFromDb en i p w = (Inl e, w1)"
  shows "sends w1 = sends w"
proof -
  have "trace w1 = trace w \<or> trace w1 = FindById i # trace w"
    using assms
    by (auto simp: sendNotificationToUserFromDb_def Let_def
             split: if_splits option.splits prod.splits)
  then show ?thesis by (auto simp: sends_def)
qed

lemma service_lookups:
  assumes "sendNotificationToUserFromDb en i p w = (r, w1)"
  shows "lookups w1 = lookups w + (if i = [] then 0 else 1)"
proof -
  obtain tks where
    tr: "trace w1 = map (\<lambda>tk. SendToToken tk p) (rev tks)
                       @ (if i = [] then [] else [FindById i]) @ trace w"
    using service_shape [OF assms] by blast
  show ?thesis
    by (simp add: lookups_def tr o_def)
qed

lemma notify_user_cases:
  assumes "notify_user en t u w = (entry, w1)"
  obtains (sent) rs where "sendNotificationToUserFromDb en (user_id u) (task_payload t) w = (Inr rs, w1)"
      and "entry = Sent (user_id u) (filter (\<lambda>r. \<not> r_ok r) rs = []) rs (filter (\<lambda>r. \<not> r_ok r) rs)"
  | (threw) e where "sendNotificationToUserFromDb en (user_id u) (task_payload t) w = (Inl e, w1)"
      and "entry = Threw (user_id u) e"
proof -
  obtain r wa where s: "sendNotificationToUserFromDb en (user_id u) (task_payload t) w = (r, wa)"
    by (cases "sendNotificationToUserFromDb en (user_id u) (task_payload t) w")
  show thesis
  proof (cases r)
    case (Inl e)
    then show thesis using assms s threw by (simp add: notify_user_def)
  next
    case (Inr rs)
    then show thesis using assms s sent by (simp add: notify_user_def Let_def)
  qed
qed

lemma notify_user_users: "notify_user en t u w = (entry, w1) \<Longrightarrow> users w1 = users w"
  by (erule notify_user_cases) (simp_all add: service_shape)

lemma notify_user_entry_user: "notify_user en t u w = (entry, w1) \<Longrightarrow> entry_user entry = user_id u"
  by (erule notify_user_cases) simp_all

lemma notify_user_sends_to:
  "notify_user en t u w = (entry, w1) \<Longrightarrow>
   sends_to tk w1 \<le> sends_to tk w +
     (if \<exists>u'. findById (user_id u) (users w) = Some u' \<and> tk \<in> set (gather_tokens u') then 1 else 0)"
  by (erule notify_user_cases) (rule service_sends_to, assumption)+

lemma notify_user_lookups:
  "notify_user en t u w = (entry, w1) \<Longrightarrow> lookups w1 = lookups w + (if user_id u = [] then 0 else 1)"
  by (erule notify_user_cases) (simp_all add: service_lookups)

lemma notify_user_entry:
  assumes "notify_user en t u w = (entry, w1)"
  shows "distinct (map r_token (entry_results entry)) \<and>
         (\<forall>r \<in> set (entry_results entry). r_token r \<noteq> []) \<and>
         entry_failed entry = filter (\<lambda>r. \<not> r_ok r) (entry_results entry)"
  using assms
proof (cases rule: notify_user_cases)
  case (sent rs)
  obtain tks where "distinct tks" "[] \<notin> set tks" "map r_token rs = tks"
    using service_shape [OF sent(1)] by blast
  moreover have "r_token r \<noteq> []" if "r \<in> set rs" for r
  proof -
    have "r_token r \<in> set (map r_token rs)" using that by simp
    then show ?thesis using \<open>[] \<notin> set tks\<close> \<open>map r_token rs = tks\<close> by metis
  qed
  ultimately show ?thesis using sent(2) by simp
next
  case (threw e)
  then show ?thesis by simp
qed

lemma notify_users_step:
  assumes "notify_users en t (u # us) w = (entries, w2)"
  obtains entry w1 rest where "notify_user en t u w = (entry, w1)"
    and "notify_users en t us w1 = (rest, w2)" and "entries = entry # rest"
proof -
  obtain entry w1 where a: "notify_user en t u w = (entry, w1)" by (cases "notify_user en t u w")
  obtain rest wb where b: "notify_users en t us w1 = (rest, wb)" by (cases "notify_users en t us w1")
  show thesis using assms a b that by simp
qed

lemma notify_users_users: "notify_users en t us w = (entries, w2) \<Longrightarrow> users w2 = users w"
proof (induction us arbitrary: w entries w2)
  case Nil
  then show ?case by simp
next
  case (Cons u us)
  from Cons.prems show ?case
  proof (cases rule: notify_users_step)
    case (1 entry w1 rest)
    then show ?thesis using Cons.IH [of w1 rest w2] notify_user_users [of en t u w entry w1] by simp
  qed
qed

lemma notify_users_entry_users:
  "notify_users en t us w = (entries, w2) \<Longrightarrow> map entry_user entries = map user_id us"
proof (induction us arbitrary: w entries w2)
  case Nil
  then show ?case by auto
next
  case (Cons u us)
  from Cons.prems show ?case
  proof (cases rule: notify_users_step)
    case (1 entry w1 rest)
    then show ?thesis using Cons.IH [of w1 rest w2] notify_user_entry_user [of en t u w entry w1] by simp
  qed
qed

lemma notify_users_sends_to:
  "notify_users en t us w = (entries, w2) \<Longrightarrow>
   sends_to tk w2 \<le> sends_to tk w +
     length (filter (\<lambda>u. \<exists>u'. findById (user_id u) (users w) = Some u' \<and> tk \<in> set (gather_tokens u')) us)"
proof (induction us arbitrary: w entries w2)
  case Nil
  then show ?case by auto
next
  case (Cons u us)
  define P where "P = (\<lambda>u::user. \<exists>u'. findById (user_id u) (users w) = Some u' \<and> tk \<in> set (gather_tokens u'))"
  from Cons.prems show ?case
  proof (cases rule: notify_users_step)
    case (1 entry w1 rest)
    have u: "users w1 = users w" using notify_user_users [OF 1(1)] .
    have a: "sends_to tk w1 \<le> sends_to tk w + (if P u then 1 else 0)"
      unfolding P_def using notify_user_sends_to [OF 1(1)] .
    have b: "sends_to tk w2 \<le> sends_to tk w1 + length (filter P us)"
      unfolding P_def using Cons.IH [OF 1(2)] u by simp
    have "sends_to tk w2 \<le> sends_to tk w + length (filter P (u # us))"
      using a b by (cases "P u") simp_all
    then show ?thesis unfolding P_def .
  qed
qed

lemma notify_users_lookups:
  "notify_users en t us w = (entries, w2) \<Longrightarrow>
   lookups w2 = lookups w + length (filter (\<lambda>u. user_id u \<noteq> []) us)"
proof (induction us arbitrary: w entries w2)
  case Nil
  then show ?case by auto
next
  case (Cons u us)
  from Cons.prems show ?case
  proof (cases rule: notify_users_step)
    case (1 entry w1 rest)
    then show ?thesis using Cons.IH [of w1 rest w2] notify_user_lookups [of en t u w entry w1] by simp
  qed
qed

lemma notify_users_entries:
  "notify_users en t us w = (entries, w2) \<Longrightarrow> entry \<in> set entries \<Longrightarrow>
   distinct (map r_token (entry_results entry)) \<and>
   (\<forall>r \<in> set (entry_results entry). r_token r \<noteq> []) \<and>
   entry_failed entry = filter (\<lambda>r. \<not> r_ok r) (entry_results entry)"
proof (induction us arbitrary: w entries w2)
  case Nil
  then show ?case by auto
next
  case (Cons u us)
  from Cons.prems(1) show ?case
  proof (cases rule: notify_users_step)
    case (1 e w1 rest)
    show ?thesis
    proof (cases "entry = e")
      case True
      then show ?thesis using notify_user_entry [OF 1(1)] by simp
    next
      case False
      then have "entry \<in> set rest" using Cons.prems(2) 1(3) by simp
      then show ?thesis using Cons.IH [OF 1(2)] by simp
    qed
  qed
qed


lemma holds_pull_other:
  "tk' \<noteq> tk \<Longrightarrow> map (\<lambda>u. holds u tk') (pull_token tk us) = map (\<lambda>u. holds u tk') us"
  by (auto simp: pull_token_def holds_def)

lemma holds_unset_other:
  "tk' \<noteq> tk \<Longrightarrow> map (\<lambda>u. holds u tk') (unset_legacy tk us) = map (\<lambda>u. holds u tk') us"
  by (auto simp: unset_legacy_def holds_def)

lemma no_holder_pull:
  "\<forall>u \<in> set us. \<not> holds u x \<Longrightarrow> \<forall>u \<in> set (pull_token tk us). \<not> holds u x"
  by (auto simp: pull_token_def holds_def)

lemma no_holder_unset:
  "\<forall>u \<in> set us. \<not> holds u x \<Longrightarrow> \<forall>u \<in> set (unset_legacy tk us). \<not> holds u x"
  by (auto simp: unset_legacy_def holds_def)

lemma no_holder_removed:
  "\<forall>u \<in> set (unset_legacy tk (pull_token tk us)). \<not> holds u tk"
  by (auto simp: unset_legacy_def pull_token_def holds_def)

lemma pull_token_absent:
  assumes "\<forall>u \<in> set us. \<not> holds u tk"
  shows "pull_token tk us = us"
proof -
  have "u\<lparr>fcmTokens := filter (\<lambda>e. token e \<noteq> Some tk) (fcmTokens u)\<rparr> = u" if "u \<in> set us" for u
  proof -
    have "\<forall>e \<in> set (fcmTokens u). token e \<noteq> Some tk"
      using assms that by (fastforce simp: holds_def image_iff)
    then have "filter (\<lambda>e. token e \<noteq> Some tk) (fcmTokens u) = fcmTokens u"
      by (simp add: filter_id_conv)
    then show ?thesis by simp
  qed
  then show ?thesis by (simp add: pull_token_def map_idI)
qed

lemma unset_legacy_absent:
  "\<forall>u \<in> set us. \<not> holds u tk \<Longrightarrow> unset_legacy tk us = us"
  by (auto simp: unset_legacy_def holds_def intro!: map_idI)

lemma removeToken_users:
  "users (removeToken en tk w) =
     (if storage_fails en (now w) then users w
      else if storage_fails en (Suc (now w)) then pull_token tk (users w)
      else unset_legacy tk (pull_token tk (users w)))"
  by (simp add: removeToken_def Let_def)

lemma removeToken_trace:
  "trace (removeToken en tk w) =
     (if storage_fails en (now w) then [UpdateManyPull tk]
      else [UpdateManyUnset tk, UpdateManyPull tk]) @ trace w"
  by (simp add: removeToken_def Let_def)

lemma removeToken_tasks: "tasks (removeToken en tk w) = tasks w"
  by (simp add: removeToken_def Let_def)

lemma removeToken_sends_to: "sends_to x (removeToken en tk w) = sends_to x w"
  by (simp add: sends_to_def removeToken_trace)

lemma removeToken_sends: "sends (removeToken en tk w) = sends w"
  by (simp add: sends_def removeToken_trace)

lemma removeToken_lookups: "lookups (removeToken en tk w) = lookups w"
  by (simp add: lookups_def removeToken_trace)

lemma removeToken_other:
  assumes "tk' \<noteq> tk"
  shows "map (\<lambda>u. holds u tk') (users (removeToken en tk w)) = map (\<lambda>u. holds u tk') (users w)"
proof -
  have p: "map (\<lambda>u. holds u tk') (pull_token tk (users w)) = map (\<lambda>u. holds u tk') (users w)"
    using assms by (rule holds_pull_other)
  have "map (\<lambda>u. holds u tk') (unset_legacy tk (pull_token tk (users w)))
        = map (\<lambda>u. holds u tk') (pull_token tk (users w))"
    using assms by (rule holds_unset_other)
  with p show ?thesis unfolding removeToken_users by presburger
qed

lemma removeToken_keeps_absent:
  assumes "\<forall>u \<in> set (users w). \<not> holds u x"
  shows "\<forall>u \<in> set (users (removeToken en tk w)). \<not> holds u x"
proof -
  have p: "\<forall>u \<in> set (pull_token tk (users w)). \<not> holds u x"
    using assms by (rule no_holder_pull)
  have "\<forall>u \<in> set (unset_legacy tk (pull_token tk (users w))). \<not> holds u x"
    using p by (rule no_holder_unset)
  with p assms show ?thesis unfolding removeToken_users by presburger
qed

lemma cleanup_sends_to: "sends_to x (cleanup en fs w) = sends_to x w"
  by (induction fs arbitrary: w) (simp_all add: removeToken_sends_to)

lemma cleanup_sends: "sends (cleanup en fs w) = sends w"
  by (induction fs arbitrary: w) (simp_all add: removeToken_sends)

lemma cleanup_lookups: "lookups (cleanup en fs w) = lookups w"
  by (induction fs arbitrary: w) (simp_all add: removeToken_lookups)

lemma cleanup_other:
  "tk' \<notin> fst ` set fs \<Longrightarrow>
   map (\<lambda>u. holds u tk') (users (cleanup en fs w)) = map (\<lambda>u. holds u tk') (users w)"
  by (induction fs arbitrary: w) (simp_all add: removeToken_other)

lemma cleanup_keeps_absent:
  "\<forall>u \<in> set (users w). \<not> holds u x \<Longrightarrow> \<forall>u \<in> set (users (cleanup en fs w)). \<not> holds u x"
proof (induction fs arbitrary: w)
  case Nil
  then show ?case by simp
next
  case (Cons f fs)
  show ?case using Cons.IH [OF removeToken_keeps_absent [OF Cons.prems]] by simp
qed

lemma cleanup_removes:
  assumes "\<forall>n. \<not> storage_fails en n" and "tk \<in> fst ` set fs"
  shows "\<forall>u \<in> set (users (cleanup en fs w)). \<not> holds u tk"
  using assms(2)
proof (induction fs arbitrary: w)
  case Nil
  then show ?case by simp
next
  case (Cons f fs)
  show ?case
  proof (cases "fst f = tk")
    case True
    have "\<forall>u \<in> set (users (removeToken en tk w)). \<not> holds u tk"
      using assms(1) by (simp add: removeToken_users no_holder_removed)
    then show ?thesis using True cleanup_keeps_absent by simp
  next
    case False
    then have "tk \<in> fst ` set fs" using Cons.prems by auto
    then show ?thesis using Cons.IH by simp
  qed
qed

lemma failed_reason_fst:
  "set (map fst (failed_reason r)) = (if \<not> r_ok r \<and> r_token r \<noteq> [] then {r_token r} else {})"
  by (cases r) auto

lemma failedTokensToCleanup_set:
  "fst ` set (failedTokensToCleanup summary) =
     {r_token r | r entry. entry \<in> set summary \<and> r \<in> set (entry_failed entry) \<and> \<not> r_ok r \<and> r_token r \<noteq> []}"
proof -
  have "fst ` set (failedTokensToCleanup summary) =
        (\<Union>entry \<in> set summary. \<Union>r \<in> set (entry_failed entry). set (map fst (failed_reason r)))"
    by (auto simp: failedTokensToCleanup_def)
  also have "\<dots> = {r_token r | r entry. entry \<in> set summary \<and> r \<in> set (entry_failed entry)
                      \<and> \<not> r_ok r \<and> r_token r \<noteq> []}"
    unfolding failed_reason_fst by (auto split: if_splits)
  finally show ?thesis .
qed


lemma dispatch_found_cases:
  assumes "dispatch_found en t found w = (rep, w')"
  obtains summary w1 where "notify_users en t found w = (summary, w1)"
    and "rep = Report summary (failedTokensToCleanup summary)"
    and "w' = cleanup en (failedTokensToCleanup summary) w1"
proof -
  obtain summary w1 where n: "notify_users en t found w = (summary, w1)"
    by (cases "notify_users en t found w")
  show thesis using assms n that by (simp add: dispatch_found_def Let_def)
qed

lemma dispatch_cases:
  assumes "sendTaskAssignedNotifications en t a w = (res, w')"
  obtains (skipped) "a = NotArray \<or> a = Array []" and "res = Inr (Skipped 0 0 [])" and "w' = w"
  | (lookup_failed) ids where "a = Array ids" and "ids \<noteq> []" and "storage_fails en (now w)"
      and "res = Inl LookupFailed" and "w' = log (Find ids) w"
  | (dispatched) ids summary w1 where "a = Array ids" and "ids \<noteq> []"
      and "\<not> storage_fails en (now w)"
      and "notify_users en t (find_in ids (users w)) (log (Find ids) w) = (summary, w1)"
      and "res = Inr (Report summary (failedTokensToCleanup summary))"
      and "w' = cleanup en (failedTokensToCleanup summary) w1"
proof (cases a)
  case NotArray
  then show thesis using assms skipped by (simp add: sendTaskAssignedNotifications_def)
next
  case (Array ids)
  show thesis
  proof (cases "ids = []")
    case True
    then show thesis using assms Array skipped by (simp add: sendTaskAssignedNotifications_def)
  next
    case ne: False
    show thesis
    proof (cases "storage_fails en (now w)")
      case True
      then show thesis using assms Array ne lookup_failed
        by (simp add: sendTaskAssignedNotifications_def Let_def)
    next
      case False
      obtain rep wa where d: "dispatch_found en t (find_in ids (users w)) (log (Find ids) w) = (rep, wa)"
        by (cases "dispatch_found en t (find_in ids (users w)) (log (Find ids) w)")
      have r: "res = Inr rep" "w' = wa" using assms Array ne False d
        by (simp_all add: sendTaskAssignedNotifications_def Let_def)
      from d show thesis
      proof (cases rule: dispatch_found_cases)
        case (1 summary w1)
        then show thesis using dispatched [of ids summary w1] Array ne False r by simp
      qed
    qed
  qed
qed


lemma findById_distinct:
  "distinct (map user_id us) \<Longrightarrow> u \<in> set us \<Longrightarrow> findById (user_id u) us = Some u"
  by (induction us) (auto simp: findById_def)

lemma findById_mem: "findById i us = Some u \<Longrightarrow> u \<in> set us \<and> user_id u = i"
  by (induction us) (auto simp: findById_def split: if_splits)

lemma gather_tokens_iff: "tk \<in> set (gather_tokens u) \<longleftrightarrow> holds u tk \<and> tk \<noteq> []"
proof
  assume a: "tk \<in> set (gather_tokens u)"
  have "holds u tk"
  proof (cases "tk \<in> set (map (\<lambda>e. the (token e)) (filter (\<lambda>e. truthy (token e)) (fcmTokens u)))")
    case True
    then obtain e where e: "e \<in> set (fcmTokens u)" "truthy (token e)" "tk = the (token e)" by auto
    then have "token e = Some tk" by (cases "token e") auto
    then have "Some tk \<in> set (map token (fcmTokens u))" using e(1) by force
    then show ?thesis by (simp add: holds_def)
  next
    case False
    then have "truthy (fcmToken u) \<and> tk = the (fcmToken u)"
      using a by (auto simp: gather_tokens_def split: if_splits)
    then have "fcmToken u = Some tk" by (cases "fcmToken u") auto
    then show ?thesis by (simp add: holds_def)
  qed
  then show "holds u tk \<and> tk \<noteq> []" using gather_tokens_nonempty [OF a] by simp
next
  assume a: "holds u tk \<and> tk \<noteq> []"
  show "tk \<in> set (gather_tokens u)"
  proof (cases "fcmToken u = Some tk")
    case True
    then show ?thesis using a by (simp add: gather_tokens_def)
  next
    case False
    then obtain e where e: "e \<in> set (fcmTokens u)" "token e = Some tk"
      using a by (auto simp: holds_def)
    then have "e \<in> set (filter (\<lambda>e. truthy (token e)) (fcmTokens u))" "the (token e) = tk"
      using a by auto
    then have "tk \<in> set (map (\<lambda>e. the (token e)) (filter (\<lambda>e. truthy (token e)) (fcmTokens u)))"
      by force
    then show ?thesis by (simp add: gather_tokens_def)
  qed
qed

lemma find_in_mem: "u \<in> set (find_in ids us) \<longleftrightarrow> u \<in> set us \<and> user_id u \<in> set ids"
  by (simp add: find_in_def)

lemma filter_length_mono:
  "(\<And>x. x \<in> set xs \<Longrightarrow> P x \<Longrightarrow> Q x) \<Longrightarrow> length (filter P xs) \<le> length (filter Q xs)"
  by (induction xs) auto

lemma service_no_tokens:
  assumes "findById i (users w) = Some u" and "gather_tokens u = []"
  shows "sendNotificationToUserFromDb en i p w =
           (Inl (if i = [] then UserIdRequired
                 else if storage_fails en (now w) then StorageError
                 else NoFcmTokensFound i),
            if i = [] then w else log (FindById i) w)"
  using assms by (simp add: sendNotificationToUserFromDb_def Let_def)

lemma notify_users_threw:
  assumes "findById i (users w) = Some u" and "gather_tokens u = []"
  shows "notify_users en t us w = (entries, w2) \<Longrightarrow> entry \<in> set entries \<Longrightarrow>
         entry_user entry = i \<Longrightarrow> \<exists>e. entry = Threw i e"
  using assms
proof (induction us arbitrary: w entries w2)
  case Nil
  then show ?case by simp
next
  case (Cons a us)
  from Cons.prems(1) show ?case
  proof (cases rule: notify_users_step)
    case (1 e0 w1 rest)
    have uw: "users w1 = users w" using notify_user_users [OF 1(1)] .
    show ?thesis
    proof (cases "entry = e0")
      case True
      then have ia: "user_id a = i"
        using notify_user_entry_user [OF 1(1)] Cons.prems(3) by simp
      have "fst (sendNotificationToUserFromDb en i (task_payload t) w) =
              Inl (if i = [] then UserIdRequired
                   else if storage_fails en (now w) then StorageError
                   else NoFcmTokensFound i)"
        using service_no_tokens [OF Cons.prems(4) Cons.prems(5)] by simp
      then obtain e where "fst (sendNotificationToUserFromDb en i (task_payload t) w) = Inl e"
        by blast
      then have "fst (notify_user en t a w) = Threw i e"
        using ia by (cases "sendNotificationToUserFromDb en i (task_payload t) w")
          (simp add: notify_user_def)
      then show ?thesis using 1(1) True by simp
    next
      case False
      then have "entry \<in> set rest" using Cons.prems(2) 1(3) by simp
      moreover have "findById i (users w1) = Some u" using Cons.prems(4) uw by simp
      ultimately show ?thesis
        using Cons.IH [OF 1(2) _ Cons.prems(3) _ Cons.prems(5)] by blast
    qed
  qed
qed

lemma pull_token_ids: "map user_id (pull_token tk us) = map user_id us"
  by (simp add: pull_token_def o_def)

lemma unset_legacy_ids: "map user_id (unset_legacy tk us) = map user_id us"
  by (simp add: unset_legacy_def o_def if_distrib cong: if_cong)

lemma send_each_tasks: "send_each en p tks w = (rs, w1) \<Longrightarrow> tasks w1 = tasks w"
proof (induction tks arbitrary: w rs w1)
  case Nil
  then show ?case by simp
next
  case (Cons tk tks)
  obtain r wa where s: "sendToToken en tk p w = (r, wa)" by (cases "sendToToken en tk p w")
  obtain rs' wb where e: "send_each en p tks wa = (rs', wb)" by (cases "send_each en p tks wa")
  have wa: "wa = log (SendToToken tk p) w" using sendToToken_world [of en tk p w] s by simp
  have "w1 = wb" using Cons.prems s e by (cases r) auto
  then show ?case using Cons.IH [OF e] wa by simp
qed

lemma service_tasks:
  assumes "sendNotificationToUserFromDb en i p w = (r, w1)"
  shows "tasks w1 = tasks w"
proof (cases "i \<noteq> [] \<and> \<not> storage_fails en (now w) \<and>
              (\<exists>u. findById i (users w) = Some u \<and> gather_tokens u \<noteq> [])")
  case True
  then obtain u where u: "findById i (users w) = Some u" "gather_tokens u \<noteq> []" by blast
  obtain rs w2 where e: "send_each en p (uniq (gather_tokens u)) (log (FindById i) w) = (rs, w2)"
    by (cases "send_each en p (uniq (gather_tokens u)) (log (FindById i) w)")
  have "w1 = w2" using assms True u e by (simp add: sendNotificationToUserFromDb_def Let_def)
  then show ?thesis using send_each_tasks [OF e] by simp
next
  case False
  then have "w1 = w \<or> w1 = log (FindById i) w"
    using assms
    by (auto simp: sendNotificationToUserFromDb_def Let_def split: if_splits option.splits)
  then show ?thesis by auto
qed

lemma notify_user_tasks: "notify_user en t u w = (entry, w1) \<Longrightarrow> tasks w1 = tasks w"
  by (erule notify_user_cases) (simp_all add: service_tasks)

lemma notify_users_tasks: "notify_users en t us w = (entries, w2) \<Longrightarrow> tasks w2 = tasks w"
proof (induction us arbitrary: w entries w2)
  case Nil
  then show ?case by simp
next
  case (Cons u us)
  from Cons.prems show ?case
  proof (cases rule: notify_users_step)
    case (1 entry w1 rest)
    then show ?thesis using Cons.IH [of w1 rest w2] notify_user_tasks [of en t u w entry w1] by simp
  qed
qed

lemma cleanup_tasks: "tasks (cleanup en fs w) = tasks w"
  by (induction fs arbitrary: w) (simp_all add: removeToken_tasks)

lemma dispatch_tasks:
  assumes "sendTaskAssignedNotifications en t a w = (res, w')"
  shows "tasks w' = tasks w"
  using assms
proof (cases rule: dispatch_cases)
  case skipped
  then show ?thesis by simp
next
  case (lookup_failed ids)
  then show ?thesis by simp
next
  case (dispatched ids summary w1)
  then show ?thesis using notify_users_tasks [OF dispatched(4)] by (simp add: cleanup_tasks)
qed

text \<open>With unique ids, the first-match updates are pointwise.\<close>

lemma update_first_none: "(\<And>u. u \<in> set us \<Longrightarrow> \<not> P u) \<Longrightarrow> update_first P f us = us"
  by (induction us) auto

lemma update_first_ids:
  "(\<And>u. user_id (f u) = user_id u) \<Longrightarrow> map user_id (update_first P f us) = map user_id us"
  by (induction us) auto

lemma update_first_map:
  assumes "distinct (map user_id us)" and "\<And>u. P u \<Longrightarrow> user_id u = i"
  shows "update_first P f us = map (\<lambda>u. if P u then f u else u) us"
  using assms(1)
proof (induction us)
  case Nil
  then show ?case by simp
next
  case (Cons u us)
  show ?case
  proof (cases "P u")
    case True
    have "\<not> P v" if "v \<in> set us" for v
    proof
      assume "P v"
      then have "user_id v = user_id u" using assms(2) [of v] assms(2) [OF True] by simp
      moreover have "user_id v \<in> set (map user_id us)" using that by simp
      ultimately show False using Cons.prems by simp
    qed
    then have "map (\<lambda>u. if P u then f u else u) us = us" by (simp add: map_idI)
    then show ?thesis using True by simp
  next
    case False
    then show ?thesis using Cons by simp
  qed
qed

lemma push_if_absent_ids: "map user_id (push_if_absent i tk plat d us) = map user_id us"
  by (simp add: push_if_absent_def update_first_ids)

lemma set_legacy_ids: "map user_id (set_legacy i tk us) = map user_id us"
  by (simp add: set_legacy_def update_first_ids)

lemma set_legacy_fcmTokens: "map fcmTokens (set_legacy i tk us) = map fcmTokens us"
  unfolding set_legacy_def by (induction us) auto

lemma push_if_absent_present:
  assumes "\<And>u. u \<in> set us \<Longrightarrow> user_id u = i \<Longrightarrow> Some tk \<in> set (map token (fcmTokens u))"
  shows "push_if_absent i tk plat d us = us"
  unfolding push_if_absent_def using assms by (intro update_first_none) auto

lemma set_legacy_present:
  assumes "distinct (map user_id us)"
    and "\<And>u. u \<in> set us \<Longrightarrow> user_id u = i \<Longrightarrow> fcmToken u = Some tk"
  shows "set_legacy i tk us = us"
proof -
  have "set_legacy i tk us = map (\<lambda>u. if user_id u = i then u\<lparr>fcmToken := Some tk\<rparr> else u) us"
    unfolding set_legacy_def using assms(1) by (rule update_first_map) simp
  also have "\<dots> = us"
  proof (rule map_idI)
    fix u assume u: "u \<in> set us"
    show "(if user_id u = i then u\<lparr>fcmToken := Some tk\<rparr> else u) = u"
    proof (cases "user_id u = i")
      case True
      then have "fcmToken u = Some tk" using assms(2) u by simp
      then show ?thesis by (cases u) simp
    next
      case False
      then show ?thesis by simp
    qed
  qed
  finally show ?thesis .
qed

lemma after_add:
  assumes "distinct (map user_id us)"
    and "u \<in> set (set_legacy i tk (push_if_absent i tk plat d us))" and "user_id u = i"
  shows "Some tk \<in> set (map token (fcmTokens u)) \<and> fcmToken u = Some tk"
proof -
  define P where "P = (\<lambda>u::user. user_id u = i \<and> Some tk \<notin> set (map token (fcmTokens u)))"
  define f where "f = (\<lambda>u::user. u\<lparr>fcmTokens := fcmTokens u @
                         [\<lparr>token = Some tk, platform = Some plat, createdAt = d\<rparr>]\<rparr>)"
  define g where "g = (\<lambda>u::user. if P u then f u else u)"
  define h where "h = (\<lambda>u::user. if user_id u = i then u\<lparr>fcmToken := Some tk\<rparr> else u)"
  have p: "push_if_absent i tk plat d us = map g us"
    unfolding push_if_absent_def g_def P_def f_def using assms(1) by (rule update_first_map) simp
  have "distinct (map user_id (push_if_absent i tk plat d us))"
    using assms(1) by (simp only: push_if_absent_ids)
  then have s: "set_legacy i tk (push_if_absent i tk plat d us) = map h (push_if_absent i tk plat d us)"
    unfolding set_legacy_def h_def by (rule update_first_map) simp
  have "u \<in> set (map h (push_if_absent i tk plat d us))" using assms(2) by (simp only: s)
  then have "u \<in> set (map h (map g us))" by (simp only: p)
  then obtain v where v: "v \<in> set us" "u = h (g v)" by auto
  have gid: "user_id (g v) = user_id v" by (simp add: g_def f_def)
  have hid: "user_id (h (g v)) = user_id (g v)" by (simp add: h_def)
  have vi: "user_id v = i" using v(2) assms(3) gid hid by simp
  then have u: "u = (g v)\<lparr>fcmToken := Some tk\<rparr>" using v(2) gid by (simp add: h_def)
  show ?thesis
  proof (cases "P v")
    case True
    then show ?thesis using u by (simp add: g_def f_def)
  next
    case False
    then have "Some tk \<in> set (map token (fcmTokens v))" using vi by (simp add: P_def)
    then show ?thesis using u False by (simp add: g_def)
  qed
qed

lemma device_token_saved:
  assumes "device_token en rq w = (TokenSaved, w1)"
  shows "truthy (dt_fcmToken rq) \<and>
         users w1 = set_legacy (dt_user rq) (the (dt_fcmToken rq))
           (push_if_absent (dt_user rq) (the (dt_fcmToken rq))
              (if truthy (dt_platform rq) then the (dt_platform rq) else [])
              (clock en (now w)) (users w))"
proof (cases "truthy (dt_fcmToken rq)")
  case False
  then show ?thesis using assms by (simp add: device_token_def)
next
  case True
  show ?thesis
  proof (cases "storage_fails en (now w) \<or> storage_fails en (Suc (now w))")
    case True
    then show ?thesis using assms \<open>truthy (dt_fcmToken rq)\<close>
      by (auto simp: device_token_def Let_def split: if_splits)
  next
    case False
    then show ?thesis using assms True
      by (auto simp: device_token_def Let_def)
  qed
qed

text \<open>The calls of one stretch of the trace, and which sends among them failed.\<close>

lemma not_accepted_iff:
  "not_accepted out \<longleftrightarrow> (\<forall>status body. out = Response status body \<longrightarrow> \<not> res_ok status)"
  by (cases out) auto

lemma failing_sends_append:
  "failing_sends en k (xs @ ys) = failing_sends en k xs @ failing_sends en (k + length xs) ys"
  by (induction en k xs rule: failing_sends.induct) auto

lemma failing_sends_no_send:
  "list_all (\<lambda>e. \<not> is_send e) es \<Longrightarrow> failing_sends en k es = []"
  by (induction en k es rule: failing_sends.induct) auto

lemma failing_sends_iff:
  "tk \<in> set (failing_sends en k es) \<longleftrightarrow>
     (\<exists>i < length es. (\<exists>p. es ! i = SendToToken tk p) \<and> not_accepted (gateway en (k + i) tk))"
proof (induction es arbitrary: k)
  case Nil
  then show ?case by simp
next
  case (Cons e es)
  have shift: "(\<exists>i < length (e # es). (\<exists>p. (e # es) ! i = SendToToken tk p) \<and>
                    not_accepted (gateway en (k + i) tk)) \<longleftrightarrow>
        ((\<exists>p. e = SendToToken tk p) \<and> not_accepted (gateway en k tk)) \<or>
        (\<exists>i < length es. (\<exists>p. es ! i = SendToToken tk p) \<and>
                    not_accepted (gateway en (Suc k + i) tk))"
    (is "?L \<longleftrightarrow> ?A \<or> ?B")
  proof
    assume ?L
    then obtain i where i: "i < length (e # es)" "\<exists>p. (e # es) ! i = SendToToken tk p"
      "not_accepted (gateway en (k + i) tk)" by blast
    show "?A \<or> ?B"
    proof (cases i)
      case 0
      then show ?thesis using i by simp
    next
      case (Suc j)
      then have "j < length es" "\<exists>p. es ! j = SendToToken tk p"
        "not_accepted (gateway en (Suc k + j) tk)" using i by simp_all
      then show ?thesis by blast
    qed
  next
    assume "?A \<or> ?B"
    then show ?L
    proof
      assume ?A
      then have "0 < length (e # es)" "\<exists>p. (e # es) ! 0 = SendToToken tk p"
        "not_accepted (gateway en (k + 0) tk)" by simp_all
      then show ?L by blast
    next
      assume ?B
      then obtain j where j: "j < length es" "\<exists>p. es ! j = SendToToken tk p"
        "not_accepted (gateway en (Suc k + j) tk)" by blast
      then have "Suc j < length (e # es)" "\<exists>p. (e # es) ! Suc j = SendToToken tk p"
        "not_accepted (gateway en (k + Suc j) tk)" by simp_all
      then show ?L by blast
    qed
  qed
  have head: "tk \<in> set (failing_sends en k (e # es)) \<longleftrightarrow>
      ((\<exists>p. e = SendToToken tk p) \<and> not_accepted (gateway en k tk)) \<or>
      tk \<in> set (failing_sends en (Suc k) es)"
    by (cases e) auto
  show ?case unfolding head shift Cons.IH ..
qed

lemma sendToToken_failing:
  assumes "tk \<noteq> []" and "sendToToken en tk p w = (r, w1)"
  shows "(\<exists>e. r = Inl e) \<longleftrightarrow> not_accepted (gateway en (now w) tk)"
  using assms
  by (cases "gateway en (now w) tk") (auto simp: sendToToken_def Let_def split: if_splits)

lemma send_each_failing:
  "[] \<notin> set tks \<Longrightarrow> send_each en p tks w = (rs, w1) \<Longrightarrow>
   failing_sends en (now w) (map (\<lambda>tk. SendToToken tk p) tks)
     = map r_token (filter (\<lambda>r. \<not> r_ok r) rs)"
proof (induction tks arbitrary: w rs w1)
  case Nil
  then show ?case by simp
next
  case (Cons tk tks)
  obtain r wa where s: "sendToToken en tk p w = (r, wa)" by (cases "sendToToken en tk p w")
  obtain rs' wb where e: "send_each en p tks wa = (rs', wb)" by (cases "send_each en p tks wa")
  have wa: "wa = log (SendToToken tk p) w" using sendToToken_world [of en tk p w] s by simp
  have tk: "tk \<noteq> []" and rest: "[] \<notin> set tks" using Cons.prems(1) by auto
  have ih: "failing_sends en (Suc (now w)) (map (\<lambda>tk. SendToToken tk p) tks)
     = map r_token (filter (\<lambda>r. \<not> r_ok r) rs')"
    using Cons.IH [OF rest e] wa by simp
  have f: "(\<exists>e. r = Inl e) \<longleftrightarrow> not_accepted (gateway en (now w) tk)"
    using sendToToken_failing [OF tk s] .
  show ?case
  proof (cases r)
    case (Inl err)
    then have "rs = SendFailed tk err # rs'" using Cons.prems(2) s e by simp
    then show ?thesis using ih f Inl by simp
  next
    case (Inr body)
    then have "rs = SendOk tk body # rs'" using Cons.prems(2) s e by simp
    then show ?thesis using ih f Inr by simp
  qed
qed

lemma now_ext: "trace w1 = rev seg @ trace w \<Longrightarrow> now w1 = now w + length seg"
  by (simp add: now_def)

lemma service_segment:
  assumes "sendNotificationToUserFromDb en i p w = (r, w1)"
  shows "\<exists>seg. trace w1 = rev seg @ trace w \<and>
           set (failing_sends en (now w) seg) =
             (case r of Inl e \<Rightarrow> {} | Inr rs \<Rightarrow> set (map r_token (filter (\<lambda>r. \<not> r_ok r) rs)))"
proof (cases "i \<noteq> [] \<and> \<not> storage_fails en (now w) \<and>
              (\<exists>u. findById i (users w) = Some u \<and> gather_tokens u \<noteq> [])")
  case True
  then obtain u where u: "findById i (users w) = Some u" "gather_tokens u \<noteq> []" by blast
  let ?tks = "uniq (gather_tokens u)"
  obtain rs w2 where e: "send_each en p ?tks (log (FindById i) w) = (rs, w2)"
    by (cases "send_each en p ?tks (log (FindById i) w)")
  have r: "r = Inr rs" "w1 = w2"
    using assms True u e by (simp_all add: sendNotificationToUserFromDb_def Let_def)
  have ne: "[] \<notin> set ?tks" using gather_tokens_nonempty [of "[]" u] by (auto simp: set_uniq)
  let ?seg = "FindById i # map (\<lambda>tk. SendToToken tk p) ?tks"
  have "trace w1 = rev ?seg @ trace w"
    using send_each_trace [OF e] r by (simp add: rev_map)
  moreover have "failing_sends en (now w) ?seg = map r_token (filter (\<lambda>r. \<not> r_ok r) rs)"
    using send_each_failing [OF ne e] by simp
  ultimately show ?thesis using r by (intro exI [of _ ?seg]) simp
next
  case False
  then have "(w1 = w \<or> w1 = log (FindById i) w) \<and> (\<exists>e. r = Inl e)"
    using assms
    by (auto simp: sendNotificationToUserFromDb_def Let_def split: if_splits option.splits)
  then obtain e where r: "r = Inl e" and w: "w1 = w \<or> w1 = log (FindById i) w" by blast
  from w show ?thesis
  proof
    assume "w1 = w"
    then show ?thesis using r by (intro exI [of _ "[]"]) simp
  next
    assume "w1 = log (FindById i) w"
    then show ?thesis using r by (intro exI [of _ "[FindById i]"]) simp
  qed
qed

lemma notify_user_segment:
  assumes "notify_user en t u w = (entry, w1)"
  shows "\<exists>seg. trace w1 = rev seg @ trace w \<and>
           set (failing_sends en (now w) seg) =
             set (map r_token (filter (\<lambda>r. \<not> r_ok r) (entry_results entry)))"
  using assms
proof (cases rule: notify_user_cases)
  case (sent rs)
  then show ?thesis using service_segment [OF sent(1)] by simp
next
  case (threw e)
  then show ?thesis using service_segment [OF threw(1)] by simp
qed

lemma notify_users_segment:
  "notify_users en t us w = (entries, w2) \<Longrightarrow>
   \<exists>seg. trace w2 = rev seg @ trace w \<and>
     set (failing_sends en (now w) seg) =
       (\<Union>entry \<in> set entries. set (map r_token (filter (\<lambda>r. \<not> r_ok r) (entry_results entry))))"
proof (induction us arbitrary: w entries w2)
  case Nil
  then show ?case by (intro exI [of _ "[]"]) simp
next
  case (Cons u us)
  from Cons.prems show ?case
  proof (cases rule: notify_users_step)
    case (1 entry w1 rest)
    obtain seg1 where s1: "trace w1 = rev seg1 @ trace w"
      and f1: "set (failing_sends en (now w) seg1) =
                 set (map r_token (filter (\<lambda>r. \<not> r_ok r) (entry_results entry)))"
      using notify_user_segment [OF 1(1)] by blast
    obtain seg2 where s2: "trace w2 = rev seg2 @ trace w1"
      and f2: "set (failing_sends en (now w1) seg2) =
        (\<Union>entry \<in> set rest. set (map r_token (filter (\<lambda>r. \<not> r_ok r) (entry_results entry))))"
      using Cons.IH [OF 1(2)] by blast
    have n1: "now w1 = now w + length seg1" using s1 by (rule now_ext)
    have "trace w2 = rev (seg1 @ seg2) @ trace w" using s1 s2 by simp
    moreover have "set (failing_sends en (now w) (seg1 @ seg2)) =
        (\<Union>entry \<in> set entries. set (map r_token (filter (\<lambda>r. \<not> r_ok r) (entry_results entry))))"
      unfolding failing_sends_append set_append f1 n1 [symmetric] f2 1(3) by simp
    ultimately show ?thesis by blast
  qed
qed

lemma removeToken_segment:
  "\<exists>seg. trace (removeToken en tk w) = rev seg @ trace w \<and> list_all (\<lambda>e. \<not> is_send e) seg"
proof (cases "storage_fails en (now w)")
  case True
  then show ?thesis
    by (intro exI [of _ "[UpdateManyPull tk]"]) (simp add: removeToken_trace)
next
  case False
  then show ?thesis
    by (intro exI [of _ "[UpdateManyPull tk, UpdateManyUnset tk]"]) (simp add: removeToken_trace)
qed

lemma cleanup_segment:
  "\<exists>seg. trace (cleanup en fs w) = rev seg @ trace w \<and> list_all (\<lambda>e. \<not> is_send e) seg"
proof (induction fs arbitrary: w)
  case Nil
  show ?case by (intro exI [of _ "[]"]) simp
next
  case (Cons f fs)
  obtain seg1 where s1: "trace (removeToken en (fst f) w) = rev seg1 @ trace w"
    "list_all (\<lambda>e. \<not> is_send e) seg1"
    using removeToken_segment by blast
  obtain seg2 where s2:
    "trace (cleanup en fs (removeToken en (fst f) w)) = rev seg2 @ trace (removeToken en (fst f) w)"
    "list_all (\<lambda>e. \<not> is_send e) seg2"
    using Cons.IH by blast
  have "trace (cleanup en (f # fs) w) = rev (seg1 @ seg2) @ trace w" using s1 s2 by simp
  moreover have "list_all (\<lambda>e. \<not> is_send e) (seg1 @ seg2)" using s1 s2 by simp
  ultimately show ?case by blast
qed

lemma segment_index:
  assumes "trace w' = rev seg @ trace w"
  shows "{tk. \<exists>n. now w \<le> n \<and> n < now w' \<and> (\<exists>p. rev (trace w') ! n = SendToToken tk p) \<and>
              (\<forall>status body. gateway en n tk = Response status body \<longrightarrow> \<not> res_ok status)}
         = set (failing_sends en (now w) seg)"
proof (intro set_eqI iffI)
  fix tk
  assume "tk \<in> {tk. \<exists>n. now w \<le> n \<and> n < now w' \<and> (\<exists>p. rev (trace w') ! n = SendToToken tk p) \<and>
              (\<forall>status body. gateway en n tk = Response status body \<longrightarrow> \<not> res_ok status)}"
  then obtain n where n: "now w \<le> n" "n < now w'" "\<exists>p. rev (trace w') ! n = SendToToken tk p"
    "not_accepted (gateway en n tk)" unfolding not_accepted_iff by blast
  define i where "i = n - now w"
  have ni: "n = now w + i" using n(1) by (simp add: i_def)
  have il: "i < length seg" using n(2) ni now_ext [OF assms] by simp
  have "rev (trace w') ! n = seg ! i"
    unfolding ni using assms by (simp add: now_def nth_append)
  then show "tk \<in> set (failing_sends en (now w) seg)"
    unfolding failing_sends_iff using il n(3,4) ni by auto
next
  fix tk
  assume "tk \<in> set (failing_sends en (now w) seg)"
  then obtain i where i: "i < length seg" "\<exists>p. seg ! i = SendToToken tk p"
    "not_accepted (gateway en (now w + i) tk)" unfolding failing_sends_iff by blast
  have "rev (trace w') ! (now w + i) = seg ! i"
    using assms by (simp add: now_def nth_append)
  moreover have "now w + i < now w'" using i(1) now_ext [OF assms] by simp
  ultimately have "now w \<le> now w + i \<and> now w + i < now w' \<and>
      (\<exists>p. rev (trace w') ! (now w + i) = SendToToken tk p) \<and>
      (\<forall>status body. gateway en (now w + i) tk = Response status body \<longrightarrow> \<not> res_ok status)"
    using i(2,3) unfolding not_accepted_iff by simp
  then show "tk \<in> {tk. \<exists>n. now w \<le> n \<and> n < now w' \<and> (\<exists>p. rev (trace w') ! n = SendToToken tk p) \<and>
              (\<forall>status body. gateway en n tk = Response status body \<longrightarrow> \<not> res_ok status)}"
    by blast
qed

lemma nth_rev_ext:
  "trace w' = xs @ trace w \<Longrightarrow> n < now w \<Longrightarrow> rev (trace w') ! n = rev (trace w) ! n"
  by (simp add: now_def nth_append)

lemma cleanup_trace_ext: "\<exists>xs. trace (cleanup en fs w) = xs @ trace w"
  using cleanup_segment [of en fs w] by blast

lemma now_mono_ext: "trace w' = xs @ trace w \<Longrightarrow> now w \<le> now w'"
  by (simp add: now_def)

lemma removeToken_first_event:
  "rev (trace (removeToken en tk w)) ! now w = UpdateManyPull tk"
  by (simp add: removeToken_trace now_def nth_append)

lemma removeToken_second_event:
  "\<not> storage_fails en (now w) \<Longrightarrow>
   rev (trace (removeToken en tk w)) ! Suc (now w) = UpdateManyUnset tk"
  by (simp add: removeToken_trace now_def nth_append)

lemma removeToken_now:
  "now (removeToken en tk w) = (if storage_fails en (now w) then Suc (now w) else Suc (Suc (now w)))"
  by (simp add: removeToken_trace now_def)

lemma cleanup_removes_when_updates_succeed:
  assumes "tk \<in> fst ` set fs"
  shows "(\<And>n. now w \<le> n \<Longrightarrow> n < now (cleanup en fs w) \<Longrightarrow>
              is_update (rev (trace (cleanup en fs w)) ! n) \<Longrightarrow> \<not> storage_fails en n) \<Longrightarrow>
         \<forall>u \<in> set (users (cleanup en fs w)). \<not> holds u tk"
  using assms
proof (induction fs arbitrary: w)
  case Nil
  then show ?case by simp
next
  case (Cons f fs)
  let ?w1 = "removeToken en (fst f) w"
  let ?w2 = "cleanup en fs ?w1"
  obtain xs where xs: "trace ?w2 = xs @ trace ?w1" using cleanup_trace_ext by blast
  have le: "now ?w1 \<le> now ?w2" using xs by (rule now_mono_ext)
  have H: "\<not> storage_fails en n"
    if "now w \<le> n" "n < now ?w2" "is_update (rev (trace ?w2) ! n)" for n
    using Cons.prems(1) [of n] that by simp
  have lt1: "now w < now ?w1" by (simp add: removeToken_now)
  have "rev (trace ?w2) ! now w = UpdateManyPull (fst f)"
    using nth_rev_ext [OF xs lt1] removeToken_first_event by simp
  then have ok1: "\<not> storage_fails en (now w)" using H [of "now w"] lt1 le by simp
  then have lt2: "Suc (now w) < now ?w1" by (simp add: removeToken_now)
  have "rev (trace ?w2) ! Suc (now w) = UpdateManyUnset (fst f)"
    using nth_rev_ext [OF xs lt2] removeToken_second_event [OF ok1] by simp
  then have ok2: "\<not> storage_fails en (Suc (now w))" using H [of "Suc (now w)"] lt2 le by simp
  have gone: "\<forall>u \<in> set (users ?w1). \<not> holds u (fst f)"
    using ok1 ok2 by (simp add: removeToken_users no_holder_removed)
  show ?case
  proof (cases "fst f = tk")
    case True
    then show ?thesis using cleanup_keeps_absent [OF gone, of en fs] by simp
  next
    case False
    then have m: "tk \<in> fst ` set fs" using Cons.prems(2) by auto
    have "\<forall>u \<in> set (users ?w2). \<not> holds u tk"
    proof (rule Cons.IH [OF _ m])
      fix n assume "now ?w1 \<le> n" "n < now ?w2" "is_update (rev (trace ?w2) ! n)"
      then show "\<not> storage_fails en n" using H [of n] lt1 by simp
    qed
    then show ?thesis by simp
  qed
qed

section \<open>The early return\<close>

text \<open>
  C5: when \<open>assignedUserIds\<close> is not an array or is an empty array, the dispatch returns the
  empty report \<open>{sent: 0, failed: 0, details: []}\<close> at once: the world, with its trace of
  storage lookups and send calls, is returned as it was.
\<close>

theorem dispatch_empty_assignees:
  "sendTaskAssignedNotifications en t NotArray w = (Inr (Skipped 0 0 []), w) \<and>
   sendTaskAssignedNotifications en t (Array []) w = (Inr (Skipped 0 0 []), w)"
  by (simp add: sendTaskAssignedNotifications_def)

section \<open>Which tokens the cleanup removes\<close>

text \<open>
  C1 as stated fails: the cleanup does not look at the kind of failure. With the gateway
  unreachable (\<open>fetch\<close> throws, a transient failure), a dispatch to U1 puts tokA on the
  cleanup list and pulls it out of every user record, U2's included.
\<close>

theorem transient_failure_removes_token:
  "spec_class FetchThrew = TransientError \<and>
   holds (example_user ''U1'' [''tokA'']) ''tokA'' \<and>
   fst (sendTaskAssignedNotifications (example_env storage_up unreachable) example_task
          (Array [''U1'']) example_world)
     = Inr (Report [Sent ''U1'' False [SendFailed ''tokA'' FetchThrew] [SendFailed ''tokA'' FetchThrew]]
                   [(''tokA'', FetchThrew)]) \<and>
   users (snd (sendTaskAssignedNotifications (example_env storage_up unreachable) example_task
          (Array [''U1'']) example_world))
     = [example_user ''U1'' [], example_user ''U2'' [''tokB''], example_user ''U3'' []]"
  by code_simp

text \<open>
  C1, amended: a token value is on \<open>failedTokens\<close> exactly when some send to it made in
  this dispatch met a gateway outcome other than a 2xx response (a response of any other
  status, a failure to obtain the access token, a failing \<open>fetch\<close>), which is exactly when
  the report holds a result for it with \<open>ok: false\<close>; when the storage updates made by the
  cleanup succeed, no user record holds such a token after the dispatch; and the token
  values that are not on the list are held by exactly the same user records as before.
\<close>

theorem failed_sends_are_cleaned_up:
  assumes "sendTaskAssignedNotifications en t a w = (Inr (Report summary failed), w')"
  shows "fst ` set failed =
           {tk. \<exists>n. now w \<le> n \<and> n < now w' \<and> (\<exists>p. rev (trace w') ! n = SendToToken tk p) \<and>
                (\<forall>status body. gateway en n tk = Response status body \<longrightarrow> \<not> res_ok status)}
         \<and> fst ` set failed =
           {r_token r | r entry. entry \<in> set summary \<and> r \<in> set (entry_results entry) \<and> \<not> r_ok r}
         \<and> ((\<forall>n. now w \<le> n \<and> n < now w' \<and> is_update (rev (trace w') ! n)
                  \<longrightarrow> \<not> storage_fails en n) \<longrightarrow>
              (\<forall>tk \<in> fst ` set failed. \<forall>u \<in> set (users w'). \<not> holds u tk))
         \<and> (\<forall>tk. tk \<notin> fst ` set failed \<longrightarrow>
              map (\<lambda>u. holds u tk) (users w') = map (\<lambda>u. holds u tk) (users w))"
  using assms
proof (cases rule: dispatch_cases)
  case skipped
  then show ?thesis by simp
next
  case (lookup_failed ids)
  then show ?thesis by simp
next
  case (dispatched ids sm w1)
  have sm: "sm = summary" and f: "failed = failedTokensToCleanup summary"
    using dispatched(5) by simp_all
  let ?w0 = "log (Find ids) w"
  have n: "notify_users en t (find_in ids (users w)) ?w0 = (summary, w1)"
    using dispatched(4) sm by simp
  have w': "w' = cleanup en failed w1" using dispatched(6) sm f by simp
  have w1: "users w1 = users w"
    using notify_users_users [OF n] by simp
  have wf: "\<And>entry. entry \<in> set summary \<Longrightarrow>
              (\<forall>r \<in> set (entry_results entry). r_token r \<noteq> []) \<and>
              entry_failed entry = filter (\<lambda>r. \<not> r_ok r) (entry_results entry)"
    using notify_users_entries [OF n] by blast
  have a: "fst ` set failed =
           {r_token r | r entry. entry \<in> set summary \<and> r \<in> set (entry_results entry) \<and> \<not> r_ok r}"
  proof (intro set_eqI iffI)
    fix tk assume "tk \<in> fst ` set failed"
    then obtain r entry where "entry \<in> set summary" "r \<in> set (entry_failed entry)"
        "\<not> r_ok r" "tk = r_token r"
      unfolding f failedTokensToCleanup_set by blast
    moreover from this have "r \<in> set (entry_results entry)" using wf [of entry] by simp
    ultimately show "tk \<in> {r_token r | r entry. entry \<in> set summary \<and>
        r \<in> set (entry_results entry) \<and> \<not> r_ok r}" by blast
  next
    fix tk assume "tk \<in> {r_token r | r entry. entry \<in> set summary \<and>
        r \<in> set (entry_results entry) \<and> \<not> r_ok r}"
    then obtain r entry where e: "entry \<in> set summary" "r \<in> set (entry_results entry)"
        "\<not> r_ok r" "tk = r_token r" by blast
    have "r \<in> set (entry_failed entry)" using e wf [of entry] by simp
    moreover have "r_token r \<noteq> []" using e wf [of entry] by auto
    ultimately show "tk \<in> fst ` set failed"
      unfolding f failedTokensToCleanup_set using e by blast
  qed
  obtain segN where sN: "trace w1 = rev segN @ trace ?w0"
    and fN: "set (failing_sends en (now ?w0) segN) =
       (\<Union>entry \<in> set summary. set (map r_token (filter (\<lambda>r. \<not> r_ok r) (entry_results entry))))"
    using notify_users_segment [OF n] by blast
  obtain segC where sC: "trace w' = rev segC @ trace w1"
    and fC: "list_all (\<lambda>e. \<not> is_send e) segC"
    unfolding w' using cleanup_segment by blast
  let ?seg = "Find ids # segN @ segC"
  have tr: "trace w' = rev ?seg @ trace w" using sN sC by simp
  have "set (failing_sends en (now w) ?seg) =
       (\<Union>entry \<in> set summary. set (map r_token (filter (\<lambda>r. \<not> r_ok r) (entry_results entry))))"
    using fN by (simp add: failing_sends_append failing_sends_no_send [OF fC])
  also have "\<dots> = {r_token r | r entry. entry \<in> set summary \<and> r \<in> set (entry_results entry)
                       \<and> \<not> r_ok r}"
    by auto
  finally have g: "fst ` set failed =
           {tk. \<exists>n. now w \<le> n \<and> n < now w' \<and> (\<exists>p. rev (trace w') ! n = SendToToken tk p) \<and>
                (\<forall>status body. gateway en n tk = Response status body \<longrightarrow> \<not> res_ok status)}"
    unfolding a segment_index [OF tr] by simp
  have b: "\<forall>tk \<in> fst ` set failed. \<forall>u \<in> set (users w'). \<not> holds u tk"
    if H: "\<forall>n. now w \<le> n \<and> n < now w' \<and> is_update (rev (trace w') ! n) \<longrightarrow> \<not> storage_fails en n"
  proof
    fix tk assume m: "tk \<in> fst ` set failed"
    have le: "now w \<le> now w1" using sN by (simp add: now_def)
    have "\<forall>u \<in> set (users (cleanup en failed w1)). \<not> holds u tk"
    proof (rule cleanup_removes_when_updates_succeed [OF m])
      fix n assume "now w1 \<le> n" "n < now (cleanup en failed w1)"
        "is_update (rev (trace (cleanup en failed w1)) ! n)"
      then show "\<not> storage_fails en n" using H le w' by simp
    qed
    then show "\<forall>u \<in> set (users w'). \<not> holds u tk" using w' by simp
  qed
  have c: "map (\<lambda>u. holds u tk) (users w') = map (\<lambda>u. holds u tk) (users w)"
    if "tk \<notin> fst ` set failed" for tk
    using cleanup_other [of tk failed en w1] that w' w1 by simp
  show ?thesis using g a b c by (intro conjI impI allI) (assumption | simp)+
qed

theorem failed_sends_are_cleaned_up_witness:
  "sendTaskAssignedNotifications (example_env (storage_down_at 3) unavailable) example_task
          (Array [''U1'', ''U2'']) example_world
     = (Inr (Report [Sent ''U1'' False [SendFailed ''tokA'' (FcmSendFailed 503 ''UNAVAILABLE'')]
                                       [SendFailed ''tokA'' (FcmSendFailed 503 ''UNAVAILABLE'')],
                     Threw ''U2'' StorageError]
                    [(''tokA'', FcmSendFailed 503 ''UNAVAILABLE'')]),
        snd (sendTaskAssignedNotifications (example_env (storage_down_at 3) unavailable)
               example_task (Array [''U1'', ''U2'']) example_world)) \<and>
   storage_fails (example_env (storage_down_at 3) unavailable) 3 \<and>
   (\<exists>n. now example_world \<le> n \<and>
        n < now (snd (sendTaskAssignedNotifications (example_env (storage_down_at 3) unavailable)
                        example_task (Array [''U1'', ''U2'']) example_world)) \<and>
        (\<exists>p. rev (trace (snd (sendTaskAssignedNotifications
                 (example_env (storage_down_at 3) unavailable)
                 example_task (Array [''U1'', ''U2'']) example_world))) ! n
              = SendToToken ''tokA'' p) \<and>
        (\<forall>status body. gateway (example_env (storage_down_at 3) unavailable) n ''tokA''
              = Response status body \<longrightarrow> \<not> res_ok status)) \<and>
   list_all (\<lambda>u. \<not> holds u ''tokA'')
     (users (snd (sendTaskAssignedNotifications (example_env (storage_down_at 3) unavailable)
                    example_task (Array [''U1'', ''U2'']) example_world))) \<and>
   map (\<lambda>u. holds u ''tokB'')
     (users (snd (sendTaskAssignedNotifications (example_env (storage_down_at 3) unavailable)
                    example_task (Array [''U1'', ''U2'']) example_world)))
     = map (\<lambda>u. holds u ''tokB'') (users example_world)"
proof -
  let ?e = "example_env (storage_down_at 3) unavailable"
  let ?d = "sendTaskAssignedNotifications ?e example_task (Array [''U1'', ''U2'']) example_world"
  let ?s = "[Sent ''U1'' False [SendFailed ''tokA'' (FcmSendFailed 503 ''UNAVAILABLE'')]
                               [SendFailed ''tokA'' (FcmSendFailed 503 ''UNAVAILABLE'')],
             Threw ''U2'' StorageError]"
  let ?f = "[(''tokA'', FcmSendFailed 503 ''UNAVAILABLE'')]"
  have h: "?d = (Inr (Report ?s ?f), snd ?d)" by code_simp
  have sf: "storage_fails ?e n \<longleftrightarrow> n = 3" for n
    by (simp add: example_env_def storage_down_at_def)
  have e3: "\<not> is_update (rev (trace (snd ?d)) ! 3)" by code_simp
  have up: "\<forall>n. now example_world \<le> n \<and> n < now (snd ?d) \<and> is_update (rev (trace (snd ?d)) ! n)
              \<longrightarrow> \<not> storage_fails ?e n"
    using e3 by (auto simp: sf)
  note t = failed_sends_are_cleaned_up [OF h]
  have m: "''tokA'' \<in> fst ` set ?f" by simp
  have g: "\<exists>n. now example_world \<le> n \<and> n < now (snd ?d) \<and>
        (\<exists>p. rev (trace (snd ?d)) ! n = SendToToken ''tokA'' p) \<and>
        (\<forall>status body. gateway ?e n ''tokA'' = Response status body \<longrightarrow> \<not> res_ok status)"
  proof -
    have "''tokA'' \<in> {tk. \<exists>n. now example_world \<le> n \<and> n < now (snd ?d) \<and>
        (\<exists>p. rev (trace (snd ?d)) ! n = SendToToken tk p) \<and>
        (\<forall>status body. gateway ?e n tk = Response status body \<longrightarrow> \<not> res_ok status)}"
      using t m by blast
    then show ?thesis by blast
  qed
  have a: "\<forall>u \<in> set (users (snd ?d)). \<not> holds u ''tokA''" using t up m by blast
  have b: "map (\<lambda>u. holds u ''tokB'') (users (snd ?d)) = map (\<lambda>u. holds u ''tokB'') (users example_world)"
  proof -
    have "''tokB'' \<notin> fst ` set ?f" by simp
    then show ?thesis using t by blast
  qed
  have s3: "storage_fails ?e 3" by (simp add: sf)
  have a': "list_all (\<lambda>u. \<not> holds u ''tokA'') (users (snd ?d))" using a by (simp add: list_all_iff)
  show ?thesis using h s3 g a' b by (intro conjI)
qed

section \<open>How often a token value is sent to\<close>

text \<open>
  C2 as stated fails: \<open>Array.from(new Set(tokens))\<close> runs inside
  \<open>sendNotificationToUserFromDb\<close>, once per user, and nothing compares the tokens of two
  users. With U1 and U2 both holding tokA and both assigned, tokA is sent to twice.
\<close>

theorem shared_token_is_sent_twice:
  "holds (example_user ''U1'' [''tokA'']) ''tokA'' \<and>
   holds (example_user ''U2'' [''tokA'', ''tokB'']) ''tokA'' \<and>
   sends_to ''tokA'' example_world = 0 \<and>
   sends_to ''tokA''
     (snd (sendTaskAssignedNotifications (example_env storage_up accepted) example_task
             (Array [''U1'', ''U2'']) example_world)) = 2"
  by code_simp

text \<open>
  C2, amended: the token values attempted for one user are distinct, so a token value
  receives at most one send per resolved user that holds it: over the whole dispatch, at
  most as many sends as there are resolved users holding the value.
\<close>

theorem dedupe_is_per_user:
  assumes "sendTaskAssignedNotifications en t (Array ids) w = (Inr (Report summary failed), w')"
    and "distinct (map user_id (users w))"
  shows "(\<forall>entry \<in> set summary. distinct (map r_token (entry_results entry))) \<and>
         (\<forall>tk. sends_to tk w' \<le> sends_to tk w +
                 length (filter (\<lambda>u. holds u tk) (find_in ids (users w))))"
  using assms(1)
proof (cases rule: dispatch_cases)
  case skipped
  then show ?thesis by simp
next
  case (lookup_failed ids')
  then show ?thesis by simp
next
  case (dispatched ids' sm w1)
  have sm: "sm = summary" and i: "ids' = ids" using dispatched by simp_all
  let ?found = "find_in ids (users w)"
  have n: "notify_users en t ?found (log (Find ids) w) = (summary, w1)"
    using dispatched(4) sm i by simp
  have a: "\<forall>entry \<in> set summary. distinct (map r_token (entry_results entry))"
    using notify_users_entries [OF n] by blast
  have b: "sends_to tk w' \<le> sends_to tk w + length (filter (\<lambda>u. holds u tk) ?found)" for tk
  proof -
    let ?P = "\<lambda>u. \<exists>u'. findById (user_id u) (users w) = Some u' \<and> tk \<in> set (gather_tokens u')"
    have "sends_to tk w1 \<le> sends_to tk (log (Find ids) w) + length (filter ?P ?found)"
      using notify_users_sends_to [OF n, of tk] by simp
    moreover have "sends_to tk (log (Find ids) w) = sends_to tk w"
      by (simp add: sends_to_def)
    moreover have "sends_to tk w' = sends_to tk w1"
      using dispatched(6) by (simp add: cleanup_sends_to)
    moreover have "length (filter ?P ?found) \<le> length (filter (\<lambda>u. holds u tk) ?found)"
    proof -
      have "holds u tk" if "u \<in> set ?found" "?P u" for u
      proof -
        have "u \<in> set (users w)" using that(1) by (simp add: find_in_mem)
        then have "findById (user_id u) (users w) = Some u"
          using assms(2) by (simp add: findById_distinct)
        then have "tk \<in> set (gather_tokens u)" using that(2) by auto
        then show ?thesis by (simp add: gather_tokens_iff)
      qed
      then show ?thesis by (rule filter_length_mono)
    qed
    ultimately show ?thesis by linarith
  qed
  show ?thesis using a b by (intro conjI allI)
qed

theorem dedupe_is_per_user_witness:
  "sendTaskAssignedNotifications (example_env storage_up accepted) example_task
       (Array [''U1'', ''U2'']) example_world
     = (Inr (Report [Sent ''U1'' True [SendOk ''tokA'' ''{}''] [],
                     Sent ''U2'' True [SendOk ''tokA'' ''{}'', SendOk ''tokB'' ''{}''] []] []),
        snd (sendTaskAssignedNotifications (example_env storage_up accepted) example_task
               (Array [''U1'', ''U2'']) example_world)) \<and>
   distinct (map user_id (users example_world)) \<and>
   sends_to ''tokB''
     (snd (sendTaskAssignedNotifications (example_env storage_up accepted) example_task
             (Array [''U1'', ''U2'']) example_world))
     \<le> sends_to ''tokB'' example_world +
        length (filter (\<lambda>u. holds u ''tokB'') (find_in [''U1'', ''U2''] (users example_world)))"
proof -
  let ?d = "sendTaskAssignedNotifications (example_env storage_up accepted) example_task
       (Array [''U1'', ''U2'']) example_world"
  have h: "?d = (Inr (Report [Sent ''U1'' True [SendOk ''tokA'' ''{}''] [],
                     Sent ''U2'' True [SendOk ''tokA'' ''{}'', SendOk ''tokB'' ''{}''] []] []),
                 snd ?d)"
    by code_simp
  have i: "distinct (map user_id (users example_world))" by code_simp
  show ?thesis using dedupe_is_per_user [OF h i] h i by blast
qed

section \<open>Lookup failure\<close>




section \<open>A user without tokens\<close>

text \<open>
  C4 as stated fails: for a user with no token, \<open>sendNotificationToUserFromDb\<close> throws
  \<open>No FCM tokens found for user\<close> instead of returning an empty array, and the report
  entry for that user is \<open>{userId, ok: false, error}\<close>, with no list of attempted tokens.
\<close>

theorem no_tokens_throws:
  "gather_tokens (example_user ''U3'' []) = [] \<and>
   sendNotificationToUserFromDb (example_env storage_up accepted) ''U3'' (task_payload example_task)
       example_world
     = (Inl (NoFcmTokensFound ''U3''), log (FindById ''U3'') example_world) \<and>
   fst (sendTaskAssignedNotifications (example_env storage_up accepted) example_task
          (Array [''U3'']) example_world)
     = Inr (Report [Threw ''U3'' (NoFcmTokensFound ''U3'')] [])"
  by code_simp

text \<open>
  C4, amended: for every user whose stored record yields no token, the service makes no
  send call and throws (the no-tokens error, unless the id is empty or the lookup by id
  itself fails); the dispatch catches it, and the report holds an entry for that user,
  each such entry being the error form \<open>{userId, ok: false, error}\<close>.
\<close>

theorem no_tokens_is_recorded_as_error:
  assumes "distinct (map user_id (users w))" and "u \<in> set (users w)" and "gather_tokens u = []"
  shows "(\<forall>w1. users w1 = users w \<longrightarrow>
            sendNotificationToUserFromDb en (user_id u) p w1 =
              (Inl (if user_id u = [] then UserIdRequired
                    else if storage_fails en (now w1) then StorageError
                    else NoFcmTokensFound (user_id u)),
               if user_id u = [] then w1 else log (FindById (user_id u)) w1)) \<and>
         (sendTaskAssignedNotifications en t (Array ids) w = (Inr (Report summary failed), w') \<and>
          user_id u \<in> set ids \<longrightarrow>
            (\<exists>e. Threw (user_id u) e \<in> set summary) \<and>
            (\<forall>entry \<in> set summary. entry_user entry = user_id u \<longrightarrow>
               (\<exists>e. entry = Threw (user_id u) e)))"
proof (intro conjI allI impI)
  fix w1 :: world assume "users w1 = users w"
  then have "findById (user_id u) (users w1) = Some u"
    using assms(1,2) by (simp add: findById_distinct)
  then show "sendNotificationToUserFromDb en (user_id u) p w1 =
              (Inl (if user_id u = [] then UserIdRequired
                    else if storage_fails en (now w1) then StorageError
                    else NoFcmTokensFound (user_id u)),
               if user_id u = [] then w1 else log (FindById (user_id u)) w1)"
    using assms(3) by (rule service_no_tokens)
next
  assume d: "sendTaskAssignedNotifications en t (Array ids) w = (Inr (Report summary failed), w') \<and>
          user_id u \<in> set ids"
  have f: "findById (user_id u) (users (log (Find ids) w)) = Some u"
    using assms(1,2) by (simp add: findById_distinct)
  from d have "sendTaskAssignedNotifications en t (Array ids) w = (Inr (Report summary failed), w')"
    by simp
  then obtain w1 where n: "notify_users en t (find_in ids (users w)) (log (Find ids) w) = (summary, w1)"
    by (cases rule: dispatch_cases) auto
  have all: "\<exists>e. entry = Threw (user_id u) e"
    if "entry \<in> set summary" "entry_user entry = user_id u" for entry
    using notify_users_threw [OF f assms(3) n that] .
  have "u \<in> set (find_in ids (users w))" using assms(2) d by (simp add: find_in_mem)
  then have "user_id u \<in> set (map entry_user summary)"
    using notify_users_entry_users [OF n] by simp
  then obtain entry where e: "entry \<in> set summary" "entry_user entry = user_id u" by auto
  then obtain err where "entry = Threw (user_id u) err" using all by blast
  then show "\<exists>e. Threw (user_id u) e \<in> set summary" using e(1) by blast
  show "\<forall>entry \<in> set summary. entry_user entry = user_id u \<longrightarrow>
               (\<exists>e. entry = Threw (user_id u) e)"
    using all by blast
qed

theorem no_tokens_is_recorded_as_error_witness:
  "distinct (map user_id (users example_world)) \<and>
   example_user ''U3'' [] \<in> set (users example_world) \<and>
   gather_tokens (example_user ''U3'' []) = [] \<and>
   sendTaskAssignedNotifications (example_env storage_up accepted) example_task
       (Array [''U3'']) example_world
     = (Inr (Report [Threw ''U3'' (NoFcmTokensFound ''U3'')] []),
        snd (sendTaskAssignedNotifications (example_env storage_up accepted) example_task
               (Array [''U3'']) example_world)) \<and>
   user_id (example_user ''U3'' []) \<in> set [''U3''] \<and>
   (\<exists>e. Threw (user_id (example_user ''U3'' [])) e
          \<in> set [Threw ''U3'' (NoFcmTokensFound ''U3'')])"
proof -
  let ?d = "sendTaskAssignedNotifications (example_env storage_up accepted) example_task
       (Array [''U3'']) example_world"
  have a: "distinct (map user_id (users example_world))" by code_simp
  have b: "example_user ''U3'' [] \<in> set (users example_world)" by (simp add: example_world_def)
  have c: "gather_tokens (example_user ''U3'' []) = []" by code_simp
  have h: "?d = (Inr (Report [Threw ''U3'' (NoFcmTokensFound ''U3'')] []), snd ?d)" by code_simp
  have i: "user_id (example_user ''U3'' []) \<in> set [''U3'']" by (simp add: example_user_def)
  show ?thesis
    using no_tokens_is_recorded_as_error [OF a b c, of "example_env storage_up accepted" _
            example_task "[''U3'']" "[Threw ''U3'' (NoFcmTokensFound ''U3'')]" "[]" "snd ?d"]
      a b c h i
    by blast
qed

section \<open>Storage round-trips of one dispatch\<close>

text \<open>
  C9 as stated fails: after the one batched \<open>User.find\<close>, the service looks every
  resolved user up again with \<open>findById\<close>. One assignee costs two lookups, two assignees
  cost three.
\<close>

theorem lookups_differ_with_assignees:
  "lookups example_world = 0 \<and>
   lookups (snd (sendTaskAssignedNotifications (example_env storage_up accepted) example_task
                   (Array [''U1'']) example_world)) = 2 \<and>
   lookups (snd (sendTaskAssignedNotifications (example_env storage_up accepted) example_task
                   (Array [''U1'', ''U2'']) example_world)) = 3"
  by code_simp

text \<open>
  C9, amended: a dispatch over a non-empty assignee array whose batched lookup succeeds
  performs that one batched lookup plus one lookup by id for every resolved user (with a
  non-empty id).
\<close>

theorem lookups_grow_with_resolved_users:
  assumes "ids \<noteq> []" and "\<not> storage_fails en (now w)"
  shows "lookups (snd (sendTaskAssignedNotifications en t (Array ids) w)) =
           lookups w + 1 + length (filter (\<lambda>u. user_id u \<noteq> []) (find_in ids (users w)))"
proof -
  obtain res w' where d: "sendTaskAssignedNotifications en t (Array ids) w = (res, w')"
    by (cases "sendTaskAssignedNotifications en t (Array ids) w")
  from d show ?thesis
  proof (cases rule: dispatch_cases)
    case skipped
    then show ?thesis using assms by simp
  next
    case (lookup_failed ids')
    then show ?thesis using assms by simp
  next
    case (dispatched ids' sm w1)
    have "lookups w1 = lookups (log (Find ids) w)
            + length (filter (\<lambda>u. user_id u \<noteq> []) (find_in ids (users w)))"
      using notify_users_lookups [OF dispatched(4)] dispatched(1) by simp
    moreover have "lookups (log (Find ids) w) = lookups w + 1"
      by (simp add: lookups_def)
    moreover have "lookups w' = lookups w1"
      using dispatched(6) by (simp add: cleanup_lookups)
    ultimately show ?thesis using d by simp
  qed
qed

theorem lookups_grow_with_resolved_users_witness:
  "[''U1'', ''U2''] \<noteq> ([] :: string list) \<and>
   \<not> storage_fails (example_env storage_up accepted) (now example_world) \<and>
   lookups (snd (sendTaskAssignedNotifications (example_env storage_up accepted) example_task
                   (Array [''U1'', ''U2'']) example_world))
     = lookups example_world + 1 +
       length (filter (\<lambda>u. user_id u \<noteq> []) (find_in [''U1'', ''U2''] (users example_world)))"
proof -
  have a: "[''U1'', ''U2''] \<noteq> ([] :: string list)" by simp
  have b: "\<not> storage_fails (example_env storage_up accepted) (now example_world)"
    by (simp add: example_env_def storage_up_def storage_down_def)
  show ?thesis using lookups_grow_with_resolved_users [OF a b] a b by blast
qed

section \<open>Removing a token\<close>

text \<open>
  C6: for every token value and every collection of users, when its two storage updates
  succeed \<open>removeToken\<close> leaves the value in no user record, neither in an \<open>fcmTokens\<close>
  entry nor in the legacy \<open>fcmToken\<close> field, whoever held it; no record is added or
  dropped and every other token value stays with the records that held it; and when no
  record holds the value the collection is returned unchanged (a no-op, no error).
\<close>

theorem removeToken_clears_every_holder:
  assumes "\<not> storage_fails en (now w)" and "\<not> storage_fails en (Suc (now w))"
  shows "(\<forall>u \<in> set (users (removeToken en tk w)). \<not> holds u tk) \<and>
         map user_id (users (removeToken en tk w)) = map user_id (users w) \<and>
         (\<forall>tk'. tk' \<noteq> tk \<longrightarrow>
            map (\<lambda>u. holds u tk') (users (removeToken en tk w)) = map (\<lambda>u. holds u tk') (users w)) \<and>
         ((\<forall>u \<in> set (users w). \<not> holds u tk) \<longrightarrow> users (removeToken en tk w) = users w)"
proof -
  have u: "users (removeToken en tk w) = unset_legacy tk (pull_token tk (users w))"
    using assms by (simp add: removeToken_users)
  have a: "\<forall>u \<in> set (users (removeToken en tk w)). \<not> holds u tk"
    unfolding u by (rule no_holder_removed)
  have b: "map user_id (users (removeToken en tk w)) = map user_id (users w)"
    unfolding u by (simp only: unset_legacy_ids pull_token_ids)
  have c: "map (\<lambda>u. holds u tk') (users (removeToken en tk w)) = map (\<lambda>u. holds u tk') (users w)"
    if "tk' \<noteq> tk" for tk'
    using that by (rule removeToken_other)
  have d: "users (removeToken en tk w) = users w" if n: "\<forall>u \<in> set (users w). \<not> holds u tk"
  proof -
    have "pull_token tk (users w) = users w" using n by (rule pull_token_absent)
    moreover have "unset_legacy tk (users w) = users w" using n by (rule unset_legacy_absent)
    ultimately show ?thesis unfolding u by simp
  qed
  show ?thesis using a b c d by (intro conjI allI impI)
qed

theorem removeToken_clears_every_holder_witness:
  "\<not> storage_fails (example_env storage_up accepted) (now example_world) \<and>
   \<not> storage_fails (example_env storage_up accepted) (Suc (now example_world)) \<and>
   holds (example_user ''U1'' [''tokA'']) ''tokA'' \<and>
   holds (example_user ''U2'' [''tokA'', ''tokB'']) ''tokA'' \<and>
   list_all (\<lambda>u. \<not> holds u ''tokA'')
     (users (removeToken (example_env storage_up accepted) ''tokA'' example_world)) \<and>
   list_all (\<lambda>u. \<not> holds u ''tokZ'') (users example_world) \<and>
   users (removeToken (example_env storage_up accepted) ''tokZ'' example_world) = users example_world"
proof -
  let ?e = "example_env storage_up accepted"
  have a: "\<not> storage_fails ?e (now example_world)"
    by (simp add: example_env_def storage_up_def)
  have b: "\<not> storage_fails ?e (Suc (now example_world))"
    by (simp add: example_env_def storage_up_def)
  have h: "holds (example_user ''U1'' [''tokA'']) ''tokA''"
    "holds (example_user ''U2'' [''tokA'', ''tokB'']) ''tokA''"
    by code_simp+
  have z: "list_all (\<lambda>u. \<not> holds u ''tokZ'') (users example_world)" by code_simp
  then have z': "\<forall>u \<in> set (users example_world). \<not> holds u ''tokZ''"
    by (simp add: list_all_iff)
  have "list_all (\<lambda>u. \<not> holds u ''tokA'') (users (removeToken ?e ''tokA'' example_world))"
    using removeToken_clears_every_holder [OF a b, of "''tokA''"] by (simp add: list_all_iff)
  moreover have "users (removeToken ?e ''tokZ'' example_world) = users example_world"
    using removeToken_clears_every_holder [OF a b, of "''tokZ''"] z' by blast
  ultimately show ?thesis using a b h z by blast
qed

section \<open>Task creation and notification outcome\<close>

text \<open>
  C7 as stated fails, by a step that is not the dispatch: between \<open>save\<close> and the
  dispatch the handler awaits two \<open>populate\<close> calls inside the outer try, so a task can be
  persisted and the response still be the 500 of the outer catch.
\<close>

theorem populate_failure_after_save:
  "\<not> title_missing (rq_title \<lparr>rq_title = Some ''Ship it'', rq_description = None,
                                rq_assignedTo = Many [''U1''], rq_user = Some ''U0''\<rparr>) \<and>
   \<not> storage_fails (example_env (storage_down_at 1) accepted) (now example_world) \<and>
   fst (create_task (example_env (storage_down_at 1) accepted)
          \<lparr>rq_title = Some ''Ship it'', rq_description = None,
            rq_assignedTo = Many [''U1''], rq_user = Some ''U0''\<rparr> example_world)
     = TaskServerError \<and>
   tasks (snd (create_task (example_env (storage_down_at 1) accepted)
          \<lparr>rq_title = Some ''Ship it'', rq_description = None,
            rq_assignedTo = Many [''U1''], rq_user = Some ''U0''\<rparr> example_world))
     = [\<lparr>task_id = ''new1'', title = ''Ship it'', description = [], assignedTo = [''U1''],
         createdBy = Some ''U0''\<rparr>]"
  by code_simp

text \<open>
  C7, amended: for every task-creation request with a title, once \<open>save\<close> and the two
  \<open>populate\<close> calls have succeeded the response is 201 with the new task, and the task is
  in the collection, whatever the dispatch does afterwards: the gateway's answers and the
  outcome of every later storage call (the dispatch's lookups and its cleanup) are
  arbitrary.
\<close>

theorem task_creation_survives_dispatch:
  assumes "\<not> title_missing (rq_title rq)"
    and "\<not> storage_fails en (now w)"
    and "\<not> storage_fails en (Suc (now w))"
    and "\<not> storage_fails en (Suc (Suc (now w)))"
  shows "fst (create_task en rq w) = Created (newTask en rq w) \<and>
         tasks (snd (create_task en rq w)) = tasks w @ [newTask en rq w]"
proof -
  let ?w3 = "log (Populate ''createdBy'')
              (log (Populate ''assignedTo'')
                ((log (SaveTask (task_id (newTask en rq w))) w)
                   \<lparr>tasks := tasks (log (SaveTask (task_id (newTask en rq w))) w) @ [newTask en rq w]\<rparr>))"
  obtain res w4 where d: "sendTaskAssignedNotifications en (newTask en rq w)
      (Array (assignedArr (rq_assignedTo rq))) ?w3 = (res, w4)"
    by (cases "sendTaskAssignedNotifications en (newTask en rq w)
      (Array (assignedArr (rq_assignedTo rq))) ?w3")
  have c: "create_task en rq w = (Created (newTask en rq w), w4)"
    using assms d by (simp add: create_task_def Let_def now_def log_def)
  have "tasks w4 = tasks ?w3" using dispatch_tasks [OF d] .
  then show ?thesis using c by simp
qed

theorem task_creation_survives_dispatch_witness:
  "\<not> title_missing (rq_title \<lparr>rq_title = Some ''Ship it'', rq_description = None,
                                rq_assignedTo = Many [''U1''], rq_user = Some ''U0''\<rparr>) \<and>
   \<not> storage_fails (example_env (storage_down_from 3) unreachable) (now example_world) \<and>
   \<not> storage_fails (example_env (storage_down_from 3) unreachable) (Suc (now example_world)) \<and>
   \<not> storage_fails (example_env (storage_down_from 3) unreachable) (Suc (Suc (now example_world))) \<and>
   fst (sendTaskAssignedNotifications (example_env (storage_down_from 3) unreachable)
          (newTask (example_env (storage_down_from 3) unreachable)
             \<lparr>rq_title = Some ''Ship it'', rq_description = None,
               rq_assignedTo = Many [''U1''], rq_user = Some ''U0''\<rparr> example_world)
          (Array [''U1''])
          (log (Populate ''createdBy'') (log (Populate ''assignedTo'')
             ((log (SaveTask ''new1'') example_world)
                \<lparr>tasks := [newTask (example_env (storage_down_from 3) unreachable)
                   \<lparr>rq_title = Some ''Ship it'', rq_description = None,
                     rq_assignedTo = Many [''U1''], rq_user = Some ''U0''\<rparr> example_world]\<rparr>))))
     = Inl LookupFailed \<and>
   fst (create_task (example_env (storage_down_from 3) unreachable)
          \<lparr>rq_title = Some ''Ship it'', rq_description = None,
            rq_assignedTo = Many [''U1''], rq_user = Some ''U0''\<rparr> example_world)
     = Created (newTask (example_env (storage_down_from 3) unreachable)
          \<lparr>rq_title = Some ''Ship it'', rq_description = None,
            rq_assignedTo = Many [''U1''], rq_user = Some ''U0''\<rparr> example_world)"
proof -
  let ?e = "example_env (storage_down_from 3) unreachable"
  let ?rq = "\<lparr>rq_title = Some ''Ship it'', rq_description = None,
            rq_assignedTo = Many [''U1''], rq_user = Some ''U0''\<rparr>"
  have a: "\<not> title_missing (rq_title ?rq)" by code_simp
  have b: "\<not> storage_fails ?e (now example_world)"
    "\<not> storage_fails ?e (Suc (now example_world))"
    "\<not> storage_fails ?e (Suc (Suc (now example_world)))"
    by (simp_all add: example_env_def storage_down_from_def now_def example_world_def)
  have c: "fst (sendTaskAssignedNotifications ?e (newTask ?e ?rq example_world) (Array [''U1''])
          (log (Populate ''createdBy'') (log (Populate ''assignedTo'')
             ((log (SaveTask ''new1'') example_world)
                \<lparr>tasks := [newTask ?e ?rq example_world]\<rparr>)))) = Inl LookupFailed"
    by code_simp
  show ?thesis using task_creation_survives_dispatch [OF a b] a b c by blast
qed

section \<open>Registering a device token twice\<close>

text \<open>
  C8: with unique user ids, when two device-token requests of the same user with the same
  token value are both answered \<open>Token saved\<close>, the second leaves the users exactly as the
  first left them (platform and time of the second request notwithstanding); and adding a
  token value that the user's \<open>fcmTokens\<close> already carries changes no \<open>fcmTokens\<close> array, so no
  duplicate entry is created.
\<close>

theorem addToken_idempotent:
  assumes "distinct (map user_id (users w))"
    and "device_token en rq w = (TokenSaved, w1)"
    and "device_token en' rq' w1 = (TokenSaved, w2)"
    and "dt_user rq' = dt_user rq" and "dt_fcmToken rq' = dt_fcmToken rq"
  shows "users w2 = users w1 \<and>
         (\<forall>u. findById (dt_user rq) (users w) = Some u \<and>
               dt_fcmToken rq \<in> set (map token (fcmTokens u)) \<longrightarrow>
               map fcmTokens (users w1) = map fcmTokens (users w))"
proof -
  let ?i = "dt_user rq" and ?tk = "the (dt_fcmToken rq)"
  let ?p1 = "if truthy (dt_platform rq) then the (dt_platform rq) else []"
  let ?p2 = "if truthy (dt_platform rq') then the (dt_platform rq') else []"
  have t: "truthy (dt_fcmToken rq)"
    and u1: "users w1 = set_legacy ?i ?tk (push_if_absent ?i ?tk ?p1 (clock en (now w)) (users w))"
    using device_token_saved [OF assms(2)] by simp_all
  have u2: "users w2 = set_legacy ?i ?tk (push_if_absent ?i ?tk ?p2 (clock en' (now w1)) (users w1))"
    using device_token_saved [OF assms(3)] assms(4,5) by simp
  have some: "dt_fcmToken rq = Some ?tk" using t by (cases "dt_fcmToken rq") simp_all
  have d1: "distinct (map user_id (users w1))"
    unfolding u1 using assms(1) by (simp only: set_legacy_ids push_if_absent_ids)
  have has: "Some ?tk \<in> set (map token (fcmTokens u)) \<and> fcmToken u = Some ?tk"
    if "u \<in> set (users w1)" "user_id u = ?i" for u
    using after_add [OF assms(1), of u ?i ?tk ?p1 "clock en (now w)"] that u1 by simp
  have "push_if_absent ?i ?tk ?p2 (clock en' (now w1)) (users w1) = users w1"
    using has by (intro push_if_absent_present) blast
  moreover have "set_legacy ?i ?tk (users w1) = users w1"
    using d1 has by (intro set_legacy_present) blast+
  ultimately have a: "users w2 = users w1" using u2 by simp
  have b: "map fcmTokens (users w1) = map fcmTokens (users w)"
    if f: "findById (dt_user rq) (users w) = Some u"
      and m: "dt_fcmToken rq \<in> set (map token (fcmTokens u))" for u
  proof -
    have "Some ?tk \<in> set (map token (fcmTokens v))" if "v \<in> set (users w)" "user_id v = ?i" for v
    proof -
      have "findById (user_id v) (users w) = Some v"
        using assms(1) that(1) by (rule findById_distinct)
      then have "v = u" using f that(2) by simp
      then show ?thesis using m some by simp
    qed
    then have "push_if_absent ?i ?tk ?p1 (clock en (now w)) (users w) = users w"
      by (intro push_if_absent_present) blast
    then show ?thesis unfolding u1 by (simp only: set_legacy_fcmTokens)
  qed
  show ?thesis using a b by blast
qed

theorem addToken_idempotent_witness:
  "distinct (map user_id (users example_world)) \<and>
   device_token (example_env storage_up accepted) (example_token_request ''ios'') example_world
     = (TokenSaved,
        snd (device_token (example_env storage_up accepted) (example_token_request ''ios'')
               example_world)) \<and>
   device_token (example_env storage_up accepted) (example_token_request ''android'')
       (snd (device_token (example_env storage_up accepted) (example_token_request ''ios'')
               example_world))
     = (TokenSaved,
        snd (device_token (example_env storage_up accepted) (example_token_request ''android'')
               (snd (device_token (example_env storage_up accepted) (example_token_request ''ios'')
                       example_world)))) \<and>
   dt_user (example_token_request ''android'') = dt_user (example_token_request ''ios'') \<and>
   dt_fcmToken (example_token_request ''android'') = dt_fcmToken (example_token_request ''ios'') \<and>
   map (map token \<circ> fcmTokens)
     (users (snd (device_token (example_env storage_up accepted) (example_token_request ''ios'')
                    example_world)))
     = [[Some ''tokA''], [Some ''tokA'', Some ''tokB''], [Some ''tokC'']] \<and>
   users (snd (device_token (example_env storage_up accepted) (example_token_request ''android'')
               (snd (device_token (example_env storage_up accepted) (example_token_request ''ios'')
                       example_world))))
     = users (snd (device_token (example_env storage_up accepted) (example_token_request ''ios'')
               example_world))"
proof -
  let ?e = "example_env storage_up accepted"
  let ?w1 = "snd (device_token ?e (example_token_request ''ios'') example_world)"
  let ?w2 = "snd (device_token ?e (example_token_request ''android'') ?w1)"
  have a: "distinct (map user_id (users example_world))" by code_simp
  have b: "device_token ?e (example_token_request ''ios'') example_world = (TokenSaved, ?w1)"
    by code_simp
  have c: "device_token ?e (example_token_request ''android'') ?w1 = (TokenSaved, ?w2)"
    by code_simp
  have d: "dt_user (example_token_request ''android'') = dt_user (example_token_request ''ios'')"
    by (simp add: example_token_request_def)
  have e: "dt_fcmToken (example_token_request ''android'') = dt_fcmToken (example_token_request ''ios'')"
    by (simp add: example_token_request_def)
  have f: "map (map token \<circ> fcmTokens) (users ?w1)
     = [[Some ''tokA''], [Some ''tokA'', Some ''tokB''], [Some ''tokC'']]"
    by code_simp
  have "users ?w2 = users ?w1" using addToken_idempotent [OF a b c d e] by blast
  then show ?thesis using a b c d e f by blast
qed

section \<open>Registration and the requested role\<close>

text \<open>
  C10 as stated fails for a role string outside the schema's enum: \<open>save\<close> rejects the
  document, the response is 500 and no user is created.
\<close>

theorem register_rejects_role_outside_enum:
  "find (\<lambda>u. email u = rg_email (example_register_request ''root'')) (users example_world) = None \<and>
   fst (register (example_env storage_up accepted) (example_register_request ''root'') example_world)
     = RegisterServerError \<and>
   users (snd (register (example_env storage_up accepted) (example_register_request ''root'')
                 example_world))
     = users example_world"
  by code_simp

text \<open>
  C10, amended: the handler takes no credential. For every registration request with an
  unused email, a name, a password and a role that is absent, empty, \<open>admin\<close> or \<open>user\<close>,
  when the two storage calls succeed and the signing secret is set, the user is created
  with \<open>role || 'user'\<close> and the signed payload carries that role; so a caller who
  supplies \<open>admin\<close> obtains an admin credential.
\<close>

theorem register_grants_requested_role:
  assumes "\<not> storage_fails en (now w)" and "\<not> storage_fails en (Suc (now w))"
    and "find (\<lambda>u. email u = rg_email rq) (users w) = None"
    and "truthy (rg_name rq)" and "rg_email rq \<noteq> []"
    and "rg_password rq = Some pw" and "bcrypt_hash en pw \<noteq> []"
    and "truthy (jwt_secret en)"
    and "requested_role (rg_role rq) \<in> set role_enum"
  shows "fst (register en rq w) =
           Registered \<lparr>jwt_id = fresh_id en (Suc (now w)), jwt_role = requested_role (rg_role rq)\<rparr>
             (fresh_id en (Suc (now w))) (the (rg_name rq)) (rg_email rq)
             (requested_role (rg_role rq)) \<and>
         users (snd (register en rq w)) =
           users w @ [\<lparr> user_id = fresh_id en (Suc (now w)), name = the (rg_name rq),
                         email = rg_email rq, password = bcrypt_hash en pw,
                         role = requested_role (rg_role rq), fcmTokens = [], fcmToken = None \<rparr>]"
  using assms by (simp add: register_def Let_def validate_user_def)

theorem register_grants_requested_role_witness:
  "\<not> storage_fails (example_env storage_up accepted) (now example_world) \<and>
   \<not> storage_fails (example_env storage_up accepted) (Suc (now example_world)) \<and>
   find (\<lambda>u. email u = rg_email (example_register_request ''admin'')) (users example_world) = None \<and>
   truthy (rg_name (example_register_request ''admin'')) \<and>
   rg_email (example_register_request ''admin'') \<noteq> [] \<and>
   rg_password (example_register_request ''admin'') = Some ''pw'' \<and>
   bcrypt_hash (example_env storage_up accepted) ''pw'' \<noteq> [] \<and>
   truthy (jwt_secret (example_env storage_up accepted)) \<and>
   requested_role (rg_role (example_register_request ''admin'')) \<in> set role_enum \<and>
   fst (register (example_env storage_up accepted) (example_register_request ''admin'') example_world)
     = Registered \<lparr>jwt_id = ''new1'', jwt_role = ''admin''\<rparr> ''new1'' ''Eve'' ''eve@example.com''
         ''admin''"
proof -
  let ?e = "example_env storage_up accepted" and ?rq = "example_register_request ''admin''"
  have a: "\<not> storage_fails ?e (now example_world)" "\<not> storage_fails ?e (Suc (now example_world))"
    by (simp_all add: example_env_def storage_up_def)
  have b: "find (\<lambda>u. email u = rg_email ?rq) (users example_world) = None" by code_simp
  have c: "truthy (rg_name ?rq)" "rg_email ?rq \<noteq> []" "rg_password ?rq = Some ''pw''"
    by (simp_all add: example_register_request_def)
  have d: "bcrypt_hash ?e ''pw'' \<noteq> []" "truthy (jwt_secret ?e)"
    by (simp_all add: example_env_def)
  have r: "requested_role (rg_role ?rq) \<in> set role_enum"
    by (simp add: example_register_request_def requested_role_def role_enum_def)
  have v: "requested_role (rg_role ?rq) = ''admin''" "fresh_id ?e (Suc (now example_world)) = ''new1''"
    "the (rg_name ?rq) = ''Eve''" "rg_email ?rq = ''eve@example.com''"
    by (simp_all add: example_register_request_def requested_role_def example_env_def)
  have "fst (register ?e ?rq example_world)
     = Registered \<lparr>jwt_id = ''new1'', jwt_role = ''admin''\<rparr> ''new1'' ''Eve''
         ''eve@example.com'' ''admin''"
    using register_grants_requested_role [OF a b c(1,2,3) d r] unfolding v by blast
  then show ?thesis using a b c d r by blast
qed

end
